theory Spec2Isabelle
  imports Main "HOL-Library.AList"
begin

text \<open>
  A model of \<^verbatim>\<open>src/main.cpp\<close>: an in-memory file storage (a tree of folders and
  files with parent pointers) and a manager that navigates it and creates, updates, prints
  and deletes entries. Each function of the source is one definition of the same name.
  Exceptions and undefined behaviour are results; the text printed to the console and a
  failing allocation are left out.
\<close>

section \<open>Exceptions\<close>

text \<open>
  The program throws two classes of the standard library, each with a fixed text.
  \<open>message\<close> enumerates the texts of \<^verbatim>\<open>what()\<close>:
  \<^item> \<open>PreceedingSlash\<close>: Preceeding "/" not allowed in filePath
  \<^item> \<open>AdjacentSlash\<close>: Adjacent "/" not allowed in filePath
  \<^item> \<open>DestinationNotFound\<close>: Destination folder can't be found
  \<^item> \<open>NameContainsSlash\<close>: File or folder names can't contain "/" in them
  \<^item> \<open>FolderExists\<close>: Folder already exists
  \<^item> \<open>FileExists\<close>: File already exists
  \<^item> \<open>FolderMissing\<close>: Folder doesn't exists
  \<^item> \<open>FileMissing\<close>: File doesn't exists

  \<open>RuntimeError\<close> is \<^verbatim>\<open>std::runtime_error\<close> and \<open>InvalidArgument\<close> is
  \<^verbatim>\<open>std::invalid_argument\<close>; neither class derives from the other, so a handler for
  one does not catch the other.
\<close>

datatype message =
    PreceedingSlash | AdjacentSlash | DestinationNotFound | NameContainsSlash
  | FolderExists | FileExists | FolderMissing | FileMissing

datatype exn = RuntimeError message | InvalidArgument message

section \<open>Path utility\<close>

subsection \<open>splitFilePath\<close>

text \<open>
  The inner \<^verbatim>\<open>while\<close> of \<^verbatim>\<open>splitFilePath\<close>: it copies characters into
  \<open>curSplit\<close> until the index reaches the end or a separator, and yields the index
  it stopped at together with the segment.
\<close>

function takeSegment :: "string \<Rightarrow> nat \<Rightarrow> string \<Rightarrow> nat \<times> string" where
  "takeSegment filePath index curSplit =
     (if index < length filePath \<and> filePath ! index \<noteq> CHR ''/''
      then takeSegment filePath (index + 1) (curSplit @ [filePath ! index])
      else (index, curSplit))"
  by pat_completeness auto
termination
  by (relation "measure (\<lambda>(filePath, index, curSplit). length filePath - index)") auto

declare takeSegment.simps [simp del]

text \<open>
  The outer \<^verbatim>\<open>while\<close>: after a segment it looks one character past the stopping
  index and throws on a second separator there; otherwise the segment is pushed and the
  index steps over the separator.
\<close>

function splitLoop :: "string \<Rightarrow> nat \<Rightarrow> string list \<Rightarrow> exn + string list" where
  "splitLoop filePath index splits =
     (if index < length filePath then
        (let seg = takeSegment filePath index [] in
           if fst seg + 1 < length filePath \<and> filePath ! (fst seg + 1) = CHR ''/''
           then Inl (RuntimeError AdjacentSlash)
           else splitLoop filePath (fst seg + 1) (splits @ [snd seg]))
      else Inr splits)"
  by pat_completeness auto
termination
proof (relation "measure (\<lambda>(filePath, index, splits). length filePath - index)", goal_cases)
  case 1
  show ?case by simp
next
  case (2 filePath index splits seg)
  have "i \<le> fst (takeSegment p i cur)" for p i cur
  proof (induction p i cur rule: takeSegment.induct)
    case (1 p i cur)
    show ?case
    proof (cases "i < length p \<and> p ! i \<noteq> CHR ''/''")
      case True
      with 1 have "i + 1 \<le> fst (takeSegment p (i + 1) (cur @ [p ! i]))"
        by simp
      with True show ?thesis by (subst takeSegment.simps) simp
    next
      case False
      then show ?thesis by (subst takeSegment.simps) auto
    qed
  qed
  then have "index \<le> fst (takeSegment filePath index [])" .
  with 2 show ?case by simp
qed

declare splitLoop.simps [simp del]

definition splitFilePath :: "string \<Rightarrow> exn + string list" where
  "splitFilePath filePath =
     (if length filePath = 0 then Inr []
      else if filePath ! 0 = CHR ''/'' then Inl (RuntimeError PreceedingSlash)
      else splitLoop filePath 0 [])"

subsection \<open>What the specification says of a split\<close>

text \<open>
  These follow the specification's words, not the code. \<open>pieces\<close> cuts a string at
  every separator (the pieces between separators, in order; a string with \<open>n\<close>
  separators has \<open>n + 1\<close> pieces, some possibly empty). \<open>nameSegments\<close> are the
  pieces without an empty last one, so that a trailing separator yields no empty
  trailing segment and the empty string has no segment at all.
\<close>

fun pieces :: "string \<Rightarrow> string list" where
  "pieces [] = [[]]"
| "pieces (c # cs) =
     (if c = CHR ''/'' then [] # pieces cs
      else (c # hd (pieces cs)) # tl (pieces cs))"

definition nameSegments :: "string \<Rightarrow> string list" where
  "nameSegments path =
     (if last (pieces path) = [] then butlast (pieces path) else pieces path)"

definition beginsWithSeparator :: "string \<Rightarrow> bool" where
  "beginsWithSeparator path = (case path of [] \<Rightarrow> False | c # cs \<Rightarrow> c = CHR ''/'')"

fun hasAdjacentSeparators :: "string \<Rightarrow> bool" where
  "hasAdjacentSeparators (a # b # cs) =
     ((a = CHR ''/'' \<and> b = CHR ''/'') \<or> hasAdjacentSeparators (b # cs))"
| "hasAdjacentSeparators cs = False"

subsection \<open>throwIfNameInvalid and getFileExtension\<close>

text \<open>\<open>Some e\<close> is the exception thrown, \<open>None\<close> a normal return.\<close>

definition throwIfNameInvalid :: "string \<Rightarrow> exn option" where
  "throwIfNameInvalid name =
     (if CHR ''/'' \<in> set name then Some (InvalidArgument NameContainsSlash) else None)"

text \<open>
  \<^verbatim>\<open>int fileNameSize = fileName.size()\<close> converts an unsigned size to a 32-bit
  \<^verbatim>\<open>int\<close>: the value modulo \<open>2^32\<close>, read as two's complement.
\<close>

definition intOfSize :: "nat \<Rightarrow> int" where
  "intOfSize n = (int n + 2147483648) mod 4294967296 - 2147483648"

text \<open>
  The inner \<^verbatim>\<open>for\<close> of \<^verbatim>\<open>getFileExtension\<close>. It runs \<open>j\<close> from \<open>i + 1\<close> to
  the end and pushes \<^verbatim>\<open>fileName[i]\<close> each time, as the source does.
\<close>

function copyExtension :: "string \<Rightarrow> int \<Rightarrow> int \<Rightarrow> int \<Rightarrow> string \<Rightarrow> string" where
  "copyExtension fileName fileNameSize i j extension =
     (if j < fileNameSize
      then copyExtension fileName fileNameSize i (j + 1) (extension @ [fileName ! nat i])
      else extension)"
  by pat_completeness auto
termination
  by (relation "measure (\<lambda>(fileName, fileNameSize, i, j, extension). nat (fileNameSize - j))") auto

declare copyExtension.simps [simp del]

text \<open>The outer \<^verbatim>\<open>for\<close>: \<open>i\<close> runs down from the last index to 0.\<close>

function findLastDot :: "string \<Rightarrow> int \<Rightarrow> int \<Rightarrow> string" where
  "findLastDot fileName fileNameSize i =
     (if i \<ge> 0 then
        (if fileName ! nat i = CHR ''.''
         then copyExtension fileName fileNameSize i (i + 1) []
         else findLastDot fileName fileNameSize (i - 1))
      else [])"
  by pat_completeness auto
termination
  by (relation "measure (\<lambda>(fileName, fileNameSize, i). nat (i + 1))") auto

declare findLastDot.simps [simp del]

definition getFileExtension :: "string \<Rightarrow> string" where
  "getFileExtension fileName =
     (let fileNameSize = intOfSize (length fileName)
      in findLastDot fileName fileNameSize (fileNameSize - 1))"

section \<open>Node model\<close>

text \<open>
  Folders live on a heap and are named by their addresses, since a child holds a
  pointer back to its parent. A \<^verbatim>\<open>std::unordered_map\<close> is an association list with
  distinct keys: \<open>map_of\<close> is the lookup (\<^verbatim>\<open>count\<close>, \<^verbatim>\<open>operator[]\<close> on a present
  key), \<open>AList.update\<close> the assignment through \<^verbatim>\<open>operator[]\<close>, \<open>AList.delete\<close>
  is \<^verbatim>\<open>erase\<close> and \<open>length\<close> the number of entries. A file is owned by exactly one
  folder and nothing else points to it, so the \<^verbatim>\<open>File *\<close> of the source is the file
  itself here. The two counters are C++ \<^verbatim>\<open>int\<close>s (32 bits); stepping one past its
  range is undefined behaviour and is modelled as such.
\<close>

type_synonym addr = nat

record File =
  fileSize :: nat
  filePath :: string
  fileExtension :: string
  content :: string

record Folder =
  foldersCount :: int
  filesCount :: int
  fullPath :: string
  parentFolder :: "addr option"
  folders :: "(string \<times> addr) list"
  files :: "(string \<times> File) list"

type_synonym heap = "addr \<Rightarrow> Folder option"

text \<open>
  How a computation on the heap ends: with a value, with an exception, in undefined
  behaviour (a freed folder is used, a counter overflows), or out of fuel.
\<close>

datatype 'a comp = Value 'a | Throws exn | Undef | NoFuel

definition INT_MAX :: int where
  "INT_MAX = 2147483647"

definition INT_MIN :: int where
  "INT_MIN = - 2147483648"

text \<open>\<^verbatim>\<open>File(fullPath, fileExtension, content)\<close> and \<^verbatim>\<open>File::updateContent\<close>.\<close>

definition newFile :: "string \<Rightarrow> string \<Rightarrow> string \<Rightarrow> File" where
  "newFile path extension text =
     \<lparr>fileSize = length text, filePath = path, fileExtension = extension, content = text\<rparr>"

definition updateContent :: "string \<Rightarrow> File \<Rightarrow> File" where
  "updateContent newFileContent f =
     f\<lparr>content := newFileContent, fileSize := length newFileContent\<rparr>"

text \<open>
  \<^verbatim>\<open>Folder(fullPath, parentFolder)\<close>: both counters start at 0, and a folder with a
  parent gets the entry \<open>''..''\<close> in its own folder mapping.
\<close>

definition newFolder :: "string \<Rightarrow> addr option \<Rightarrow> Folder" where
  "newFolder path parent =
     \<lparr>foldersCount = 0, filesCount = 0, fullPath = path, parentFolder = parent,
      folders = (case parent of None \<Rightarrow> [] | Some p \<Rightarrow> [(''..'', p)]),
      files = []\<rparr>"

definition addFolder :: "string \<Rightarrow> addr \<Rightarrow> Folder \<Rightarrow> Folder comp" where
  "addFolder newFolderName newFolderPointer f =
     (if foldersCount f = INT_MAX then Undef
      else Value (f\<lparr>folders := AList.update newFolderName newFolderPointer (folders f),
                    foldersCount := foldersCount f + 1\<rparr>))"

definition addFile :: "string \<Rightarrow> File \<Rightarrow> Folder \<Rightarrow> Folder comp" where
  "addFile newFileName newFilePointer f =
     (if filesCount f = INT_MAX then Undef
      else Value (f\<lparr>files := AList.update newFileName newFilePointer (files f),
                    filesCount := filesCount f + 1\<rparr>))"

text \<open>
  \<^verbatim>\<open>removeFile\<close>: the file goes with its entry. (On an absent name
  \<^verbatim>\<open>operator[]\<close> would insert a null pointer, whose \<^verbatim>\<open>delete\<close> does nothing, and
  \<^verbatim>\<open>erase\<close> would remove it again: the same result.)
\<close>

definition removeFile :: "string \<Rightarrow> Folder \<Rightarrow> Folder comp" where
  "removeFile fileName f =
     (if filesCount f = INT_MIN then Undef
      else Value (f\<lparr>files := AList.delete fileName (files f),
                    filesCount := filesCount f - 1\<rparr>))"

text \<open>
  \<^verbatim>\<open>delete p\<close> for a folder pointer: the destructor \<^verbatim>\<open>~Folder\<close> deletes every child
  folder but the entries named \<open>''..''\<close> (and the files, which go with the folder
  here), then the folder's memory is released. The recursion follows the pointers of the
  heap, which need not form a tree, so it takes fuel: one unit per level of nesting.
  Deleting a folder that is no longer on the heap is undefined behaviour.
\<close>

fun deleteFolderPtr :: "nat \<Rightarrow> addr \<Rightarrow> heap \<Rightarrow> heap comp"
  and destructFolders :: "nat \<Rightarrow> (string \<times> addr) list \<Rightarrow> heap \<Rightarrow> heap comp" where
  "deleteFolderPtr 0 p h = NoFuel"
| "deleteFolderPtr (Suc fuel) p h =
     (case h p of
        None \<Rightarrow> Undef
      | Some f \<Rightarrow>
          (case destructFolders fuel (folders f) h of
             Value h' \<Rightarrow> (if h' p = None then Undef else Value (h'(p := None)))
           | r \<Rightarrow> r))"
| "destructFolders fuel [] h = Value h"
| "destructFolders fuel (curFolder # rest) h =
     (if fst curFolder = ''..'' then destructFolders fuel rest h
      else (case deleteFolderPtr fuel (snd curFolder) h of
              Value h' \<Rightarrow> destructFolders fuel rest h'
            | r \<Rightarrow> r))"

text \<open>
  \<^verbatim>\<open>Folder::removeFolder\<close> on the folder at \<open>this\<close>: delete the child, then erase
  its entry and decrement the counter. The last two touch \<open>this\<close> again, which is
  undefined behaviour if the deletion released it.
\<close>

definition removeFolder :: "nat \<Rightarrow> addr \<Rightarrow> string \<Rightarrow> heap \<Rightarrow> heap comp" where
  "removeFolder fuel this folderName h =
     (case h this of
        None \<Rightarrow> Undef
      | Some f \<Rightarrow>
          (case (case map_of (folders f) folderName of
                   None \<Rightarrow> Value h
                 | Some child \<Rightarrow> deleteFolderPtr fuel child h) of
             Value h' \<Rightarrow>
               (case h' this of
                  None \<Rightarrow> Undef
                | Some f' \<Rightarrow>
                    if foldersCount f' = INT_MIN then Undef
                    else Value (h'(this \<mapsto> f'\<lparr>folders := AList.delete folderName (folders f'),
                                               foldersCount := foldersCount f' - 1\<rparr>)))
           | r \<Rightarrow> r))"

section \<open>Storage and manager\<close>

text \<open>
  One state holds the heap with its allocator (\<open>nextAddr\<close>, the address the next
  \<^verbatim>\<open>new Folder\<close> returns), the storage's root pointer and the manager's two fields.
\<close>

record state =
  heap :: heap
  nextAddr :: addr
  rootFolder :: addr
  currentDirPointer :: addr
  currentDirPath :: string

text \<open>\<^verbatim>\<open>new FileStorage()\<close> followed by \<^verbatim>\<open>new FileManager(fileStorage)\<close>.\<close>

definition newFileManager :: state where
  "newFileManager =
     \<lparr>heap = Map.empty(0 \<mapsto> newFolder ''/'' None), nextAddr = 1, rootFolder = 0,
      currentDirPointer = 0, currentDirPath = ''/''\<rparr>"

text \<open>
  How a call of a public operation ends. \<open>Returned\<close>: it returned and printed no
  diagnostic. \<open>Reported\<close>: a handler of the operation caught the exception and printed
  the diagnostic, then the operation returned. \<open>Propagated\<close>: the exception left the
  operation (or, inside an operation, the block it was thrown in). \<open>Terminated\<close>: the
  exception tried to leave a \<^verbatim>\<open>noexcept\<close> function. Each of the first three carries
  the state the call leaves behind.
\<close>

datatype result =
    Returned state
  | Reported exn state
  | Propagated exn state
  | Terminated exn
  | UndefinedBehaviour
  | OutOfFuel

text \<open>The two handlers of the source.\<close>

definition catchInvalidArgument :: "result \<Rightarrow> result" where
  "catchInvalidArgument r =
     (case r of
        Propagated (InvalidArgument m) s \<Rightarrow> Reported (InvalidArgument m) s
      | _ \<Rightarrow> r)"

definition catchRuntimeError :: "result \<Rightarrow> result" where
  "catchRuntimeError r =
     (case r of
        Propagated (RuntimeError m) s \<Rightarrow> Reported (RuntimeError m) s
      | _ \<Rightarrow> r)"

definition noexcept :: "result \<Rightarrow> result" where
  "noexcept r = (case r of Propagated e s \<Rightarrow> Terminated e | _ \<Rightarrow> r)"

subsection \<open>changeDirectory\<close>

text \<open>The \<^verbatim>\<open>for\<close> over the segments, from the folder at \<open>tempDirPointer\<close>.\<close>

fun walkFolders :: "heap \<Rightarrow> addr \<Rightarrow> string list \<Rightarrow> addr comp" where
  "walkFolders h tempDirPointer [] = Value tempDirPointer"
| "walkFolders h tempDirPointer (nextFolderName # rest) =
     (case h tempDirPointer of
        None \<Rightarrow> Undef
      | Some f \<Rightarrow>
          (case map_of (folders f) nextFolderName of
             None \<Rightarrow> Throws (RuntimeError DestinationNotFound)
           | Some next \<Rightarrow> walkFolders h next rest))"

definition changeDirectoryTry :: "string \<Rightarrow> addr \<Rightarrow> state \<Rightarrow> result" where
  "changeDirectoryTry destinationFolder tempDirPointer s =
     (case splitFilePath destinationFolder of
        Inl e \<Rightarrow> Propagated e s
      | Inr destinationFolderSplit \<Rightarrow>
          (case walkFolders (heap s) tempDirPointer destinationFolderSplit of
             Value p \<Rightarrow> Returned (s\<lparr>currentDirPointer := p, currentDirPath := destinationFolder\<rparr>)
           | Throws e \<Rightarrow> Propagated e s
           | Undef \<Rightarrow> UndefinedBehaviour
           | NoFuel \<Rightarrow> OutOfFuel))"

definition changeDirectory :: "string \<Rightarrow> bool \<Rightarrow> state \<Rightarrow> result" where
  "changeDirectory destinationFolder relative s =
     (if currentDirPath s = destinationFolder then Returned s
      else catchRuntimeError
             (changeDirectoryTry destinationFolder
                (if relative = False then rootFolder s else currentDirPointer s) s))"

subsection \<open>The CRUD operations\<close>

definition createFolderTry :: "string \<Rightarrow> state \<Rightarrow> result" where
  "createFolderTry folderName s =
     (case throwIfNameInvalid folderName of
        Some e \<Rightarrow> Propagated e s
      | None \<Rightarrow>
          (case heap s (currentDirPointer s) of
             None \<Rightarrow> UndefinedBehaviour
           | Some cur \<Rightarrow>
               if map_of (folders cur) folderName \<noteq> None
               then Propagated (RuntimeError FolderExists) s
               else
                 (let newFolderPath = currentDirPath s @ ''/'' @ folderName;
                      newFolderPointer = nextAddr s;
                      h1 = (heap s)(newFolderPointer \<mapsto>
                              newFolder newFolderPath (Some (currentDirPointer s)))
                  in case h1 (currentDirPointer s) of
                       None \<Rightarrow> UndefinedBehaviour
                     | Some cur1 \<Rightarrow>
                         (case addFolder folderName newFolderPointer cur1 of
                            Value cur2 \<Rightarrow>
                              Returned (s\<lparr>heap := h1(currentDirPointer s \<mapsto> cur2),
                                          nextAddr := nextAddr s + 1\<rparr>)
                          | _ \<Rightarrow> UndefinedBehaviour))))"

definition createFolder :: "string \<Rightarrow> state \<Rightarrow> result" where
  "createFolder folderName s = catchInvalidArgument (createFolderTry folderName s)"

definition createFileTry :: "string \<Rightarrow> string \<Rightarrow> state \<Rightarrow> result" where
  "createFileTry fileName fileContent s =
     (case throwIfNameInvalid fileName of
        Some e \<Rightarrow> Propagated e s
      | None \<Rightarrow>
          (case heap s (currentDirPointer s) of
             None \<Rightarrow> UndefinedBehaviour
           | Some cur \<Rightarrow>
               if map_of (files cur) fileName \<noteq> None
               then Propagated (RuntimeError FileExists) s
               else
                 (let newFilePath = currentDirPath s @ ''/'' @ fileName;
                      extension = getFileExtension fileName;
                      newFilePointer = newFile newFilePath extension fileContent
                  in case addFile fileName newFilePointer cur of
                       Value cur' \<Rightarrow>
                         Returned (s\<lparr>heap := (heap s)(currentDirPointer s \<mapsto> cur')\<rparr>)
                     | _ \<Rightarrow> UndefinedBehaviour)))"

definition createFile :: "string \<Rightarrow> string \<Rightarrow> state \<Rightarrow> result" where
  "createFile fileName fileContent s =
     catchInvalidArgument (createFileTry fileName fileContent s)"

definition updateFileTry :: "string \<Rightarrow> string \<Rightarrow> state \<Rightarrow> result" where
  "updateFileTry fileName fileContent s =
     (case throwIfNameInvalid fileName of
        Some e \<Rightarrow> Propagated e s
      | None \<Rightarrow>
          (case heap s (currentDirPointer s) of
             None \<Rightarrow> UndefinedBehaviour
           | Some cur \<Rightarrow>
               (case map_of (files cur) fileName of
                  None \<Rightarrow> Propagated (RuntimeError FileMissing) s
                | Some f \<Rightarrow>
                    Returned (s\<lparr>heap := (heap s)(currentDirPointer s \<mapsto>
                       cur\<lparr>files := AList.update fileName (updateContent fileContent f)
                                      (files cur)\<rparr>)\<rparr>))))"

definition updateFile :: "string \<Rightarrow> string \<Rightarrow> state \<Rightarrow> result" where
  "updateFile fileName fileContent s =
     catchInvalidArgument (updateFileTry fileName fileContent s)"

text \<open>
  \<^verbatim>\<open>printFileContents\<close> prints the file and changes nothing; the function is
  \<^verbatim>\<open>noexcept\<close>.
\<close>

definition printFileContentsTry :: "string \<Rightarrow> state \<Rightarrow> result" where
  "printFileContentsTry fileName s =
     (case throwIfNameInvalid fileName of
        Some e \<Rightarrow> Propagated e s
      | None \<Rightarrow>
          (case heap s (currentDirPointer s) of
             None \<Rightarrow> UndefinedBehaviour
           | Some cur \<Rightarrow>
               (case map_of (files cur) fileName of
                  None \<Rightarrow> Propagated (RuntimeError FileMissing) s
                | Some f \<Rightarrow> Returned s)))"

definition printFileContents :: "string \<Rightarrow> state \<Rightarrow> result" where
  "printFileContents fileName s =
     noexcept (catchInvalidArgument (printFileContentsTry fileName s))"

definition deleteFolderTry :: "nat \<Rightarrow> string \<Rightarrow> state \<Rightarrow> result" where
  "deleteFolderTry fuel folderName s =
     (case throwIfNameInvalid folderName of
        Some e \<Rightarrow> Propagated e s
      | None \<Rightarrow>
          (case heap s (currentDirPointer s) of
             None \<Rightarrow> UndefinedBehaviour
           | Some cur \<Rightarrow>
               if map_of (folders cur) folderName = None
               then Propagated (RuntimeError FolderMissing) s
               else
                 (case removeFolder fuel (currentDirPointer s) folderName (heap s) of
                    Value h' \<Rightarrow> Returned (s\<lparr>heap := h'\<rparr>)
                  | NoFuel \<Rightarrow> OutOfFuel
                  | _ \<Rightarrow> UndefinedBehaviour)))"

definition deleteFolder :: "nat \<Rightarrow> string \<Rightarrow> state \<Rightarrow> result" where
  "deleteFolder fuel folderName s = catchInvalidArgument (deleteFolderTry fuel folderName s)"

definition deleteFileTry :: "string \<Rightarrow> state \<Rightarrow> result" where
  "deleteFileTry fileName s =
     (case throwIfNameInvalid fileName of
        Some e \<Rightarrow> Propagated e s
      | None \<Rightarrow>
          (case heap s (currentDirPointer s) of
             None \<Rightarrow> UndefinedBehaviour
           | Some cur \<Rightarrow>
               if map_of (files cur) fileName = None
               then Propagated (RuntimeError FileMissing) s
               else
                 (case removeFile fileName cur of
                    Value cur' \<Rightarrow>
                      Returned (s\<lparr>heap := (heap s)(currentDirPointer s \<mapsto> cur')\<rparr>)
                  | _ \<Rightarrow> UndefinedBehaviour)))"

definition deleteFile :: "string \<Rightarrow> state \<Rightarrow> result" where
  "deleteFile fileName s = catchInvalidArgument (deleteFileTry fileName s)"

subsection \<open>Sequences of calls and the states they reach\<close>

datatype call =
    ChangeDirectory string bool
  | CreateFolder string
  | CreateFile string string
  | UpdateFile string string
  | PrintFileContents string
  | DeleteFolder nat string
  | DeleteFile string

fun perform :: "call \<Rightarrow> state \<Rightarrow> result" where
  "perform (ChangeDirectory destinationFolder relative) s =
     changeDirectory destinationFolder relative s"
| "perform (CreateFolder folderName) s = createFolder folderName s"
| "perform (CreateFile fileName fileContent) s = createFile fileName fileContent s"
| "perform (UpdateFile fileName fileContent) s = updateFile fileName fileContent s"
| "perform (PrintFileContents fileName) s = printFileContents fileName s"
| "perform (DeleteFolder fuel folderName) s = deleteFolder fuel folderName s"
| "perform (DeleteFile fileName) s = deleteFile fileName s"

text \<open>
  The state a driver goes on with after a call: the one the call left, also when the
  call threw and the driver caught the exception. Nothing follows termination,
  undefined behaviour or a deletion that did not come back.
\<close>

fun stateAfter :: "result \<Rightarrow> state option" where
  "stateAfter (Returned s) = Some s"
| "stateAfter (Reported e s) = Some s"
| "stateAfter (Propagated e s) = Some s"
| "stateAfter (Terminated e) = None"
| "stateAfter UndefinedBehaviour = None"
| "stateAfter OutOfFuel = None"

fun runCalls :: "call list \<Rightarrow> state \<Rightarrow> state option" where
  "runCalls [] s = Some s"
| "runCalls (c # cs) s =
     (case stateAfter (perform c s) of None \<Rightarrow> None | Some s' \<Rightarrow> runCalls cs s')"

inductive reachable :: "state \<Rightarrow> bool" where
  initial: "reachable newFileManager"
| step: "reachable s \<Longrightarrow> stateAfter (perform c s) = Some s' \<Longrightarrow> reachable s'"

text \<open>Whether a call failed: an exception was thrown, whoever caught it.\<close>

fun failed :: "result \<Rightarrow> bool" where
  "failed (Reported e s) = True"
| "failed (Propagated e s) = True"
| "failed (Terminated e) = True"
| "failed r = False"

text \<open>Whether a call returned normally, with no diagnostic.\<close>

fun returned :: "result \<Rightarrow> bool" where
  "returned (Returned s) = True"
| "returned r = False"

text \<open>The exception that leaves the operation, if one does.\<close>

fun escapes :: "result \<Rightarrow> exn option" where
  "escapes (Propagated e s) = Some e"
| "escapes (Terminated e) = Some e"
| "escapes r = None"

text \<open>The operations that change the tree or the manager's location.\<close>

fun mutating :: "call \<Rightarrow> bool" where
  "mutating (PrintFileContents fileName) = False"
| "mutating c = True"

text \<open>
  The state of a fresh manager after a list of calls (the fresh state itself if the run
  does not get through), and the folder at an address after such a run.
\<close>

definition afterCalls :: "call list \<Rightarrow> state" where
  "afterCalls cs = (case runCalls cs newFileManager of None \<Rightarrow> newFileManager | Some s \<Rightarrow> s)"

definition folderAt :: "addr \<Rightarrow> call list \<Rightarrow> Folder option" where
  "folderAt p cs = (case runCalls cs newFileManager of None \<Rightarrow> None | Some s \<Rightarrow> heap s p)"

subsection \<open>The bookkeeping invariant\<close>

text \<open>
  What holds of one live folder at address \<open>p\<close>: the allocator has passed it, only the
  root has no parent, no name is bound twice, and the counters agree with the mappings,
  where the folder counter of a folder with a parent is one less than the number of its
  entries (the constructor's \<open>''..''\<close> entry is never counted).
\<close>

definition folderOk :: "addr \<Rightarrow> addr \<Rightarrow> addr \<Rightarrow> Folder \<Rightarrow> bool" where
  "folderOk next root p f =
     (p < next \<and>
      (parentFolder f = None) = (p = root) \<and>
      distinct (map fst (folders f)) \<and>
      distinct (map fst (files f)) \<and>
      filesCount f = int (length (files f)) \<and>
      foldersCount f = int (length (folders f)) - (if parentFolder f = None then 0 else 1))"

definition heapOk :: "heap \<Rightarrow> addr \<Rightarrow> addr \<Rightarrow> bool" where
  "heapOk h next root = (root < next \<and> (\<forall>p f. h p = Some f \<longrightarrow> folderOk next root p f))"

definition stateOk :: "state \<Rightarrow> bool" where
  "stateOk s = heapOk (heap s) (nextAddr s) (rootFolder s)"

subsection \<open>What the specification says of a resolution\<close>

text \<open>
  This follows the specification's words, not the code: the segments are taken one by
  one from a starting folder; a name leads to the child folder of that name, the
  reserved name \<open>..\<close> leads to the parent through the back-reference (which the root
  does not have), and a missing segment leaves no result at all.
\<close>

fun resolvePath :: "heap \<Rightarrow> addr \<Rightarrow> string list \<Rightarrow> addr option" where
  "resolvePath h p [] = Some p"
| "resolvePath h p (name # rest) =
     (case h p of
        None \<Rightarrow> None
      | Some f \<Rightarrow>
          if name = ''..''
          then (case parentFolder f of None \<Rightarrow> None | Some parent \<Rightarrow> resolvePath h parent rest)
          else (case map_of (folders f) name of
                  None \<Rightarrow> None
                | Some child \<Rightarrow> resolvePath h child rest))"

text \<open>
  The entry \<open>..\<close> of every live folder is its parent back-reference, and a folder
  without a parent has no such entry: the shape the constructor gives every folder.
\<close>

definition backRefsOk :: "heap \<Rightarrow> bool" where
  "backRefsOk h = (\<forall>p f. h p = Some f \<longrightarrow> map_of (folders f) ''..'' = parentFolder f)"

text \<open>The calls that neither create nor delete a folder under the reserved name.\<close>

fun reservedFree :: "call \<Rightarrow> bool" where
  "reservedFree (CreateFolder folderName) = (folderName \<noteq> ''..'')"
| "reservedFree (DeleteFolder fuel folderName) = (folderName \<noteq> ''..'')"
| "reservedFree c = True"

abbreviation nonSep :: "char \<Rightarrow> bool" where
  "nonSep c \<equiv> c \<noteq> CHR ''/''"


section \<open>Facts about the model\<close>

subsection \<open>The split, in terms of the specification's segments\<close>

lemma takeSegment_takeWhile:
  "takeSegment p i cur =
     (i + length (takeWhile nonSep (drop i p)), cur @ takeWhile nonSep (drop i p))"
proof (induction p i cur rule: takeSegment.induct)
  case (1 p i cur)
  show ?case
  proof (cases "i < length p \<and> p ! i \<noteq> CHR ''/''")
    case True
    then have d: "drop i p = p ! i # drop (i + 1) p"
      by (simp add: Cons_nth_drop_Suc)
    from True 1 have "takeSegment p (i + 1) (cur @ [p ! i]) =
        (i + 1 + length (takeWhile nonSep (drop (i + 1) p)),
         (cur @ [p ! i]) @ takeWhile nonSep (drop (i + 1) p))"
      by simp
    with True d show ?thesis
      by (subst takeSegment.simps) simp
  next
    case False
    show ?thesis
    proof (cases "i < length p")
      case True
      with False have sep: "p ! i = CHR ''/''" by simp
      with True have "drop i p = CHR ''/'' # drop (i + 1) p"
        by (metis Cons_nth_drop_Suc Suc_eq_plus1)
      with sep show ?thesis by (subst takeSegment.simps) simp
    next
      case False
      then show ?thesis by (subst takeSegment.simps) simp
    qed
  qed
qed

lemma pieces_not_Nil [simp]: "pieces p \<noteq> []"
  by (cases p) auto

lemma pieces_segment:
  "\<forall>c \<in> set seg. nonSep c \<Longrightarrow> pieces (seg @ CHR ''/'' # r) = seg # pieces r"
  by (induction seg) auto

lemma pieces_no_sep:
  "\<forall>c \<in> set seg. nonSep c \<Longrightarrow> pieces seg = [seg]"
  by (induction seg) auto

lemma nameSegments_segment:
  "\<forall>c \<in> set seg. nonSep c \<Longrightarrow> nameSegments (seg @ CHR ''/'' # r) = seg # nameSegments r"
  by (simp add: nameSegments_def pieces_segment)

lemma nameSegments_no_sep:
  "\<forall>c \<in> set seg. nonSep c \<Longrightarrow> seg \<noteq> [] \<Longrightarrow> nameSegments seg = [seg]"
  by (simp add: nameSegments_def pieces_no_sep)

lemma nameSegments_Nil [simp]: "nameSegments [] = []"
  by (simp add: nameSegments_def)

lemma adjacent_segment:
  "\<forall>c \<in> set seg. nonSep c \<Longrightarrow> seg \<noteq> [] \<Longrightarrow>
   hasAdjacentSeparators (seg @ CHR ''/'' # r) = (beginsWithSeparator r \<or> hasAdjacentSeparators r)"
proof (induction seg)
  case Nil
  then show ?case by simp
next
  case (Cons a seg)
  show ?case
  proof (cases seg)
    case Nil
    with Cons.prems show ?thesis
      by (cases r) (auto simp: beginsWithSeparator_def)
  next
    case (Cons b seg')
    with Cons.prems Cons.IH show ?thesis by auto
  qed
qed

lemma adjacent_no_sep:
  "\<forall>c \<in> set seg. nonSep c \<Longrightarrow> \<not> hasAdjacentSeparators seg"
  by (induction seg rule: hasAdjacentSeparators.induct) auto

lemma splitLoop_char:
  "i \<le> length p \<Longrightarrow> \<not> beginsWithSeparator (drop i p) \<Longrightarrow>
   splitLoop p i splits =
     (if hasAdjacentSeparators (drop i p) then Inl (RuntimeError AdjacentSlash)
      else Inr (splits @ nameSegments (drop i p)))"
proof (induction p i splits rule: splitLoop.induct)
  case (1 p i splits)
  show ?case
  proof (cases "i < length p")
    case False
    with 1 show ?thesis by (subst splitLoop.simps) simp
  next
    case True
    define rest where "rest = drop i p"
    define seg where "seg = takeWhile nonSep rest"
    define r where "r = dropWhile nonSep rest"
    have rest: "rest = seg @ r" by (simp add: seg_def r_def)
    from True have rest_ne: "rest \<noteq> []" by (simp add: rest_def)
    with "1.prems" have "hd rest \<noteq> CHR ''/''"
      by (cases rest) (auto simp: beginsWithSeparator_def rest_def)
    with rest_ne have seg_ne: "seg \<noteq> []"
      by (cases rest) (auto simp: seg_def)
    have seg_ok: "\<forall>c \<in> set seg. nonSep c"
      by (auto simp: seg_def dest: set_takeWhileD)
    have ts: "takeSegment p i [] = (i + length seg, seg)"
      by (simp add: takeSegment_takeWhile seg_def rest_def)
    have dj: "drop (i + length seg) p = r"
      using rest by (metis add.commute append_eq_conv_conj drop_drop rest_def)
    have len: "length p = i + length seg + length r"
      using True rest by (metis add.assoc length_append length_drop le_add_diff_inverse less_imp_le_nat rest_def)
    have unfold: "splitLoop p i splits =
        (if i + length seg + 1 < length p \<and> p ! (i + length seg + 1) = CHR ''/''
         then Inl (RuntimeError AdjacentSlash)
         else splitLoop p (i + length seg + 1) (splits @ [seg]))"
      using True ts by (subst splitLoop.simps) (simp add: Let_def)
    show ?thesis
    proof (cases r)
      case Nil
      with len have nochk: "\<not> (i + length seg + 1 < length p)" by simp
      then have "splitLoop p (i + length seg + 1) (splits @ [seg]) = Inr (splits @ [seg])"
        by (subst splitLoop.simps) simp
      with unfold nochk have lhs: "splitLoop p i splits = Inr (splits @ [seg])" by simp
      have "drop i p = seg" using rest Nil by (simp add: rest_def)
      with seg_ok seg_ne lhs show ?thesis
        by (simp add: adjacent_no_sep nameSegments_no_sep)
    next
      case (Cons s r')
      have "r \<noteq> []" using Cons by simp
      then have "\<not> nonSep (hd r)" unfolding r_def by (rule hd_dropWhile)
      with Cons have r: "r = CHR ''/'' # r'" by simp
      have dj1: "drop (i + length seg + 1) p = r'"
        using dj r by (metis Suc_eq_plus1 drop_Suc list.sel(3) tl_drop)
      have chk: "(i + length seg + 1 < length p \<and> p ! (i + length seg + 1) = CHR ''/'')
                   = beginsWithSeparator r'"
      proof (cases r')
        case Nil
        with len r show ?thesis by (simp add: beginsWithSeparator_def)
      next
        case (Cons x xs)
        with len r have lt: "i + length seg + 1 < length p" by simp
        then have "p ! (i + length seg + 1) = hd (drop (i + length seg + 1) p)"
          by (simp add: hd_drop_conv_nth)
        with dj1 Cons lt show ?thesis by (simp add: beginsWithSeparator_def)
      qed
      have le: "i + length seg + 1 \<le> length p" using len r by simp
      have whole: "drop i p = seg @ CHR ''/'' # r'" using rest r by (simp add: rest_def)
      have adj: "hasAdjacentSeparators (drop i p) = (beginsWithSeparator r' \<or> hasAdjacentSeparators r')"
        unfolding whole using seg_ok seg_ne by (rule adjacent_segment)
      have segs: "nameSegments (drop i p) = seg # nameSegments r'"
        unfolding whole using seg_ok by (rule nameSegments_segment)
      show ?thesis
      proof (cases "beginsWithSeparator r'")
        case True
        with chk unfold adj show ?thesis by simp
      next
        case False
        from chk False have nochk:
          "\<not> (i + length seg + 1 < length p \<and> p ! (i + length seg + 1) = CHR ''/'')"
          by simp
        have ih: "splitLoop p (i + length seg + 1) (splits @ [seg]) =
              (if hasAdjacentSeparators r' then Inl (RuntimeError AdjacentSlash)
               else Inr ((splits @ [seg]) @ nameSegments r'))"
          using "1.IH" [OF \<open>i < length p\<close> refl] chk False ts le dj1 by simp
        have "splitLoop p i splits = splitLoop p (i + length seg + 1) (splits @ [seg])"
          by (subst unfold) (simp only: nochk if_False)
        also note ih
        finally show ?thesis using False adj segs by simp
      qed
    qed
  qed
qed

lemma splitFilePath_char:
  "splitFilePath p =
     (if beginsWithSeparator p then Inl (RuntimeError PreceedingSlash)
      else if hasAdjacentSeparators p then Inl (RuntimeError AdjacentSlash)
      else Inr (nameSegments p))"
proof (cases p)
  case Nil
  then show ?thesis by (simp add: splitFilePath_def beginsWithSeparator_def)
next
  case (Cons c cs)
  show ?thesis
  proof (cases "c = CHR ''/''")
    case True
    with Cons show ?thesis by (simp add: splitFilePath_def beginsWithSeparator_def)
  next
    case False
    with Cons have "\<not> beginsWithSeparator (drop 0 p)" by (simp add: beginsWithSeparator_def)
    from splitLoop_char [OF _ this, of "[]"] False Cons show ?thesis
      by (simp add: splitFilePath_def beginsWithSeparator_def)
  qed
qed


lemma nameSegments_nonempty:
  "\<not> beginsWithSeparator p \<Longrightarrow> \<not> hasAdjacentSeparators p \<Longrightarrow>
   [] \<notin> set (nameSegments p) \<and> (p \<noteq> [] \<longrightarrow> nameSegments p \<noteq> [])"
proof (induction p rule: length_induct)
  case (1 p)
  show ?case
  proof (cases "p = []")
    case True
    then show ?thesis by simp
  next
    case False
    define seg where "seg = takeWhile nonSep p"
    define r where "r = dropWhile nonSep p"
    have p: "p = seg @ r" by (simp add: seg_def r_def)
    from False "1.prems"(1) have "hd p \<noteq> CHR ''/''"
      by (cases p) (auto simp: beginsWithSeparator_def)
    with False have seg_ne: "seg \<noteq> []" by (cases p) (auto simp: seg_def)
    have seg_ok: "\<forall>c \<in> set seg. nonSep c"
      by (auto simp: seg_def dest: set_takeWhileD)
    show ?thesis
    proof (cases r)
      case Nil
      with p seg_ok seg_ne show ?thesis by (simp add: nameSegments_no_sep)
    next
      case (Cons x r')
      have "r \<noteq> []" using Cons by simp
      then have "\<not> nonSep (hd r)" unfolding r_def by (rule hd_dropWhile)
      with Cons have r: "r = CHR ''/'' # r'" by simp
      with p have whole: "p = seg @ CHR ''/'' # r'" by simp
      have "hasAdjacentSeparators p = (beginsWithSeparator r' \<or> hasAdjacentSeparators r')"
        unfolding whole using seg_ok seg_ne by (rule adjacent_segment)
      with "1.prems"(2) have r'_ok: "\<not> beginsWithSeparator r'" "\<not> hasAdjacentSeparators r'"
        by simp_all
      have "length r' < length p" using whole by simp
      with "1.IH" r'_ok have "[] \<notin> set (nameSegments r')" by blast
      moreover have "nameSegments p = seg # nameSegments r'"
        unfolding whole using seg_ok by (rule nameSegments_segment)
      ultimately show ?thesis using seg_ne by simp
    qed
  qed
qed

subsection \<open>Association lists, deletion and the invariant\<close>

lemma length_delete_present:
  "distinct (map fst al) \<Longrightarrow> k \<in> fst ` set al \<Longrightarrow> Suc (length (AList.delete k al)) = length al"
proof (induction al)
  case Nil
  then show ?case by simp
next
  case (Cons a al)
  show ?case
  proof (cases "fst a = k")
    case True
    with Cons.prems have "k \<notin> fst ` set al" by auto
    then have "AList.delete k al = al" by simp
    with True show ?thesis by (cases a) simp
  next
    case False
    with Cons show ?thesis by (cases a) auto
  qed
qed

lemma length_update_absent:
  "map_of al k = None \<Longrightarrow> length (AList.update k v al) = Suc (length al)"
  by (induction al) (auto split: if_splits)

lemma length_update_present:
  "map_of al k = Some v' \<Longrightarrow> length (AList.update k v al) = length al"
  by (induction al) (auto split: if_splits)

lemma map_of_Some_in_keys: "map_of al k = Some v \<Longrightarrow> k \<in> fst ` set al"
  by (metis domI dom_map_of_conv_image_fst)

lemma deleteFolderPtr_shrinks:
  "deleteFolderPtr fuel p h = Value h' \<Longrightarrow> h' a = Some f \<Longrightarrow> h a = Some f"
  "destructFolders fuel cs h = Value h' \<Longrightarrow> h' a = Some f \<Longrightarrow> h a = Some f"
proof (induction fuel p h and fuel cs h arbitrary: h' and h'
       rule: deleteFolderPtr_destructFolders.induct)
  case (1 p h)
  then show ?case by simp
next
  case (2 fuel p h)
  then show ?case
    by (auto split: option.splits comp.splits if_splits)
next
  case (3 fuel h)
  then show ?case by simp
next
  case (4 fuel curFolder rest h)
  then show ?case
    by (auto split: comp.splits if_splits)
qed


lemmas handler_defs = catchInvalidArgument_def catchRuntimeError_def noexcept_def

lemma folderOk_mono: "folderOk next root p f \<Longrightarrow> next \<le> next' \<Longrightarrow> folderOk next' root p f"
  by (auto simp: folderOk_def)

lemma changeDirectory_frame:
  "stateAfter (changeDirectory d r s) = Some s' \<Longrightarrow>
   heap s' = heap s \<and> nextAddr s' = nextAddr s \<and> rootFolder s' = rootFolder s"
  by (auto simp: changeDirectory_def changeDirectoryTry_def catchRuntimeError_def
           split: if_splits sum.splits comp.splits exn.splits)

lemma changeDirectory_not_returned:
  "stateAfter (changeDirectory d r s) = Some s' \<Longrightarrow> \<not> returned (changeDirectory d r s) \<Longrightarrow> s' = s"
  by (auto simp: changeDirectory_def changeDirectoryTry_def catchRuntimeError_def
           split: if_splits sum.splits comp.splits exn.splits)

lemma createFolder_not_returned:
  "stateAfter (createFolder n s) = Some s' \<Longrightarrow> \<not> returned (createFolder n s) \<Longrightarrow> s' = s"
  by (auto simp: createFolder_def createFolderTry_def catchInvalidArgument_def Let_def
           split: if_splits option.splits comp.splits exn.splits)

lemma createFile_not_returned:
  "stateAfter (createFile n c s) = Some s' \<Longrightarrow> \<not> returned (createFile n c s) \<Longrightarrow> s' = s"
  by (auto simp: createFile_def createFileTry_def catchInvalidArgument_def Let_def
           split: if_splits option.splits comp.splits exn.splits)

lemma updateFile_not_returned:
  "stateAfter (updateFile n c s) = Some s' \<Longrightarrow> \<not> returned (updateFile n c s) \<Longrightarrow> s' = s"
  by (auto simp: updateFile_def updateFileTry_def catchInvalidArgument_def Let_def
           split: if_splits option.splits comp.splits exn.splits)

lemma deleteFolder_not_returned:
  "stateAfter (deleteFolder fuel n s) = Some s' \<Longrightarrow> \<not> returned (deleteFolder fuel n s) \<Longrightarrow> s' = s"
  by (auto simp: deleteFolder_def deleteFolderTry_def catchInvalidArgument_def Let_def
           split: if_splits option.splits comp.splits exn.splits)

lemma deleteFile_not_returned:
  "stateAfter (deleteFile n s) = Some s' \<Longrightarrow> \<not> returned (deleteFile n s) \<Longrightarrow> s' = s"
  by (auto simp: deleteFile_def deleteFileTry_def catchInvalidArgument_def Let_def
           split: if_splits option.splits comp.splits exn.splits)

lemma printFileContents_state:
  "stateAfter (printFileContents n s) = Some s' \<Longrightarrow> s' = s"
  by (auto simp: printFileContents_def printFileContentsTry_def handler_defs
           split: if_splits option.splits comp.splits exn.splits)


lemma createFolder_Returned:
  "createFolder n s = Returned s' \<Longrightarrow>
   \<exists>cur. heap s (currentDirPointer s) = Some cur \<and> map_of (folders cur) n = None \<and>
     (nextAddr s \<noteq> currentDirPointer s \<longrightarrow>
       s' = s\<lparr>heap := (heap s)
              (nextAddr s \<mapsto> newFolder (currentDirPath s @ ''/'' @ n) (Some (currentDirPointer s)),
               currentDirPointer s \<mapsto> cur\<lparr>folders := AList.update n (nextAddr s) (folders cur),
                                            foldersCount := foldersCount cur + 1\<rparr>),
             nextAddr := nextAddr s + 1\<rparr>)"
  by (auto simp: createFolder_def createFolderTry_def catchInvalidArgument_def Let_def addFolder_def
           split: if_splits option.splits comp.splits exn.splits)

lemma createFolder_stateOk:
  assumes ok: "stateOk s" and ret: "createFolder n s = Returned s'"
  shows "stateOk s'"
proof -
  from ret obtain cur where
    cur: "heap s (currentDirPointer s) = Some cur" and
    absent: "map_of (folders cur) n = None" and
    s': "nextAddr s \<noteq> currentDirPointer s \<Longrightarrow>
       s' = s\<lparr>heap := (heap s)
              (nextAddr s \<mapsto> newFolder (currentDirPath s @ ''/'' @ n) (Some (currentDirPointer s)),
               currentDirPointer s \<mapsto> cur\<lparr>folders := AList.update n (nextAddr s) (folders cur),
                                            foldersCount := foldersCount cur + 1\<rparr>),
             nextAddr := nextAddr s + 1\<rparr>"
    by (blast dest: createFolder_Returned)
  from ok have root: "rootFolder s < nextAddr s"
    and all: "\<And>p f. heap s p = Some f \<Longrightarrow> folderOk (nextAddr s) (rootFolder s) p f"
    by (auto simp: stateOk_def heapOk_def)
  from all [OF cur] have curOk: "folderOk (nextAddr s) (rootFolder s) (currentDirPointer s) cur" .
  then have ne: "nextAddr s \<noteq> currentDirPointer s" by (auto simp: folderOk_def)
  note eq = s' [OF ne]
  have new: "folderOk (nextAddr s + 1) (rootFolder s) (nextAddr s)
               (newFolder (currentDirPath s @ ''/'' @ n) (Some (currentDirPointer s)))"
    using root by (simp add: folderOk_def newFolder_def)
  have upd: "folderOk (nextAddr s + 1) (rootFolder s) (currentDirPointer s)
               (cur\<lparr>folders := AList.update n (nextAddr s) (folders cur),
                    foldersCount := foldersCount cur + 1\<rparr>)"
    using curOk absent
    by (simp add: folderOk_def distinct_update length_update_absent)
  have old: "folderOk (nextAddr s + 1) (rootFolder s) p f" if "heap s p = Some f" for p f
    using all [OF that] by (rule folderOk_mono) simp
  show ?thesis
    unfolding stateOk_def heapOk_def eq
    using root new upd old by (auto split: if_splits)
qed


lemma heapOk_update:
  "heapOk h next root \<Longrightarrow> folderOk next root p f \<Longrightarrow> heapOk (h(p \<mapsto> f)) next root"
  by (simp add: heapOk_def)

lemma heapOk_lookup:
  "heapOk h next root \<Longrightarrow> h p = Some f \<Longrightarrow> folderOk next root p f"
  by (simp add: heapOk_def)

lemma createFile_stateOk:
  assumes ok: "stateOk s" and ret: "createFile n c s = Returned s'"
  shows "stateOk s'"
proof -
  from ret obtain cur where
    cur: "heap s (currentDirPointer s) = Some cur" and
    absent: "map_of (files cur) n = None" and
    eq: "s' = s\<lparr>heap := (heap s)(currentDirPointer s \<mapsto>
            cur\<lparr>files := AList.update n
                     (newFile (currentDirPath s @ ''/'' @ n) (getFileExtension n) c) (files cur),
                 filesCount := filesCount cur + 1\<rparr>)\<rparr>"
    by (auto simp: createFile_def createFileTry_def catchInvalidArgument_def Let_def addFile_def
             split: if_splits option.splits comp.splits exn.splits)
  from ok cur have "folderOk (nextAddr s) (rootFolder s) (currentDirPointer s) cur"
    by (simp add: stateOk_def heapOk_lookup)
  with absent have "folderOk (nextAddr s) (rootFolder s) (currentDirPointer s)
      (cur\<lparr>files := AList.update n
                (newFile (currentDirPath s @ ''/'' @ n) (getFileExtension n) c) (files cur),
            filesCount := filesCount cur + 1\<rparr>)"
    by (simp add: folderOk_def distinct_update length_update_absent)
  with ok show ?thesis
    by (simp add: eq stateOk_def heapOk_update)
qed

lemma updateFile_stateOk:
  assumes ok: "stateOk s" and ret: "updateFile n c s = Returned s'"
  shows "stateOk s'"
proof -
  from ret obtain cur f where
    cur: "heap s (currentDirPointer s) = Some cur" and
    present: "map_of (files cur) n = Some f" and
    eq: "s' = s\<lparr>heap := (heap s)(currentDirPointer s \<mapsto>
            cur\<lparr>files := AList.update n (updateContent c f) (files cur)\<rparr>)\<rparr>"
    by (auto simp: updateFile_def updateFileTry_def catchInvalidArgument_def
             split: if_splits option.splits comp.splits exn.splits)
  from ok cur have "folderOk (nextAddr s) (rootFolder s) (currentDirPointer s) cur"
    by (simp add: stateOk_def heapOk_lookup)
  with present have "folderOk (nextAddr s) (rootFolder s) (currentDirPointer s)
      (cur\<lparr>files := AList.update n (updateContent c f) (files cur)\<rparr>)"
    by (simp add: folderOk_def distinct_update length_update_present)
  with ok show ?thesis
    by (simp add: eq stateOk_def heapOk_update)
qed

lemma deleteFile_stateOk:
  assumes ok: "stateOk s" and ret: "deleteFile n s = Returned s'"
  shows "stateOk s'"
proof -
  from ret obtain cur f where
    cur: "heap s (currentDirPointer s) = Some cur" and
    present: "map_of (files cur) n = Some f" and
    eq: "s' = s\<lparr>heap := (heap s)(currentDirPointer s \<mapsto>
            cur\<lparr>files := AList.delete n (files cur), filesCount := filesCount cur - 1\<rparr>)\<rparr>"
    by (auto simp: deleteFile_def deleteFileTry_def catchInvalidArgument_def removeFile_def
             split: if_splits option.splits comp.splits exn.splits)
  from ok cur have curOk: "folderOk (nextAddr s) (rootFolder s) (currentDirPointer s) cur"
    by (simp add: stateOk_def heapOk_lookup)
  from present have "n \<in> fst ` set (files cur)" by (rule map_of_Some_in_keys)
  with curOk have "Suc (length (AList.delete n (files cur))) = length (files cur)"
    by (simp add: folderOk_def length_delete_present)
  then have "int (length (AList.delete n (files cur))) = int (length (files cur)) - 1"
    by linarith
  with curOk have "folderOk (nextAddr s) (rootFolder s) (currentDirPointer s)
      (cur\<lparr>files := AList.delete n (files cur), filesCount := filesCount cur - 1\<rparr>)"
    by (simp add: folderOk_def distinct_delete)
  with ok show ?thesis
    by (simp add: eq stateOk_def heapOk_update)
qed

lemma deleteFolder_stateOk:
  assumes ok: "stateOk s" and ret: "deleteFolder fuel n s = Returned s'"
  shows "stateOk s'"
proof -
  from ret obtain cur child h' f' where
    cur: "heap s (currentDirPointer s) = Some cur" and
    present: "map_of (folders cur) n = Some child" and
    del: "deleteFolderPtr fuel child (heap s) = Value h'" and
    f': "h' (currentDirPointer s) = Some f'" and
    eq: "s' = s\<lparr>heap := h'(currentDirPointer s \<mapsto>
            f'\<lparr>folders := AList.delete n (folders f'), foldersCount := foldersCount f' - 1\<rparr>)\<rparr>"
    by (auto simp: deleteFolder_def deleteFolderTry_def catchInvalidArgument_def removeFolder_def
             split: if_splits option.splits comp.splits exn.splits)
  from del f' have "heap s (currentDirPointer s) = Some f'" by (rule deleteFolderPtr_shrinks)
  with cur have same: "f' = cur" by simp
  from ok cur have curOk: "folderOk (nextAddr s) (rootFolder s) (currentDirPointer s) cur"
    by (simp add: stateOk_def heapOk_lookup)
  from present have "n \<in> fst ` set (folders cur)" by (rule map_of_Some_in_keys)
  with curOk have "Suc (length (AList.delete n (folders cur))) = length (folders cur)"
    by (simp add: folderOk_def length_delete_present)
  then have "int (length (AList.delete n (folders cur))) = int (length (folders cur)) - 1"
    by linarith
  with curOk have new: "folderOk (nextAddr s) (rootFolder s) (currentDirPointer s)
      (cur\<lparr>folders := AList.delete n (folders cur), foldersCount := foldersCount cur - 1\<rparr>)"
    by (simp add: folderOk_def distinct_delete)
  have "heapOk h' (nextAddr s) (rootFolder s)"
    using ok deleteFolderPtr_shrinks(1) [OF del]
    by (auto simp: stateOk_def heapOk_def)
  with new show ?thesis
    by (simp add: eq same stateOk_def heapOk_update)
qed

lemma returned_cases: "returned r \<Longrightarrow> \<exists>s'. r = Returned s'"
  by (cases r) auto

lemma perform_stateOk:
  assumes ok: "stateOk s" and st: "stateAfter (perform c s) = Some s'"
  shows "stateOk s'"
proof (cases "returned (perform c s)")
  case False
  show ?thesis
  proof (cases c)
    case (ChangeDirectory d r)
    with st False ok show ?thesis by (auto dest: changeDirectory_not_returned)
  next
    case (CreateFolder n)
    with st False ok show ?thesis by (auto dest: createFolder_not_returned)
  next
    case (CreateFile n x)
    with st False ok show ?thesis by (auto dest: createFile_not_returned)
  next
    case (UpdateFile n x)
    with st False ok show ?thesis by (auto dest: updateFile_not_returned)
  next
    case (PrintFileContents n)
    with st False ok show ?thesis by (auto dest: printFileContents_state)
  next
    case (DeleteFolder fuel n)
    with st False ok show ?thesis by (auto dest: deleteFolder_not_returned)
  next
    case (DeleteFile n)
    with st False ok show ?thesis by (auto dest: deleteFile_not_returned)
  qed
next
  case True
  then obtain t where t: "perform c s = Returned t" by (blast dest: returned_cases)
  with st have [simp]: "t = s'" by simp
  show ?thesis
  proof (cases c)
    case (ChangeDirectory d r)
    with st have "heap s' = heap s \<and> nextAddr s' = nextAddr s \<and> rootFolder s' = rootFolder s"
      by (simp add: changeDirectory_frame)
    with ok show ?thesis by (simp add: stateOk_def)
  next
    case (CreateFolder n)
    with t ok show ?thesis by (auto dest: createFolder_stateOk)
  next
    case (CreateFile n x)
    with t ok show ?thesis by (auto dest: createFile_stateOk)
  next
    case (UpdateFile n x)
    with t ok show ?thesis by (auto dest: updateFile_stateOk)
  next
    case (PrintFileContents n)
    with st ok show ?thesis by (auto dest: printFileContents_state)
  next
    case (DeleteFolder fuel n)
    with t ok show ?thesis by (auto dest: deleteFolder_stateOk)
  next
    case (DeleteFile n)
    with t ok show ?thesis by (auto dest: deleteFile_stateOk)
  qed
qed

lemma newFileManager_stateOk: "stateOk newFileManager"
  by (simp add: stateOk_def heapOk_def folderOk_def newFileManager_def newFolder_def)

lemma reachable_stateOk: "reachable s \<Longrightarrow> stateOk s"
  by (induction rule: reachable.induct) (auto intro: newFileManager_stateOk perform_stateOk)

lemma runCalls_reachable:
  "reachable s \<Longrightarrow> runCalls cs s = Some s' \<Longrightarrow> reachable s'"
proof (induction cs arbitrary: s)
  case Nil
  then show ?case by simp
next
  case (Cons c cs)
  from Cons.prems obtain t where t: "stateAfter (perform c s) = Some t" and r: "runCalls cs t = Some s'"
    by (auto split: option.splits)
  from Cons.prems(1) t have "reachable t" by (rule reachable.step)
  then show ?case using r by (rule Cons.IH)
qed


lemma afterCalls_reachable: "reachable (afterCalls cs)"
  by (auto simp: afterCalls_def split: option.splits
           intro: reachable.initial runCalls_reachable [OF reachable.initial])

lemma hasAdjacentSeparators_iff:
  "hasAdjacentSeparators p = (\<exists>xs ys. p = xs @ ''//'' @ ys)"
proof (induction p rule: hasAdjacentSeparators.induct)
  case (1 a b cs)
  show ?case
  proof
    assume "hasAdjacentSeparators (a # b # cs)"
    then consider "a = CHR ''/'' \<and> b = CHR ''/''" | "hasAdjacentSeparators (b # cs)" by auto
    then show "\<exists>xs ys. a # b # cs = xs @ ''//'' @ ys"
    proof cases
      case 1
      then have "a # b # cs = [] @ ''//'' @ cs" by simp
      then show ?thesis by blast
    next
      case 2
      with "1.IH" obtain xs ys where "b # cs = xs @ ''//'' @ ys" by blast
      then have "a # b # cs = (a # xs) @ ''//'' @ ys" by simp
      then show ?thesis by blast
    qed
  next
    assume "\<exists>xs ys. a # b # cs = xs @ ''//'' @ ys"
    then obtain xs ys where eq: "a # b # cs = xs @ ''//'' @ ys" by blast
    show "hasAdjacentSeparators (a # b # cs)"
    proof (cases xs)
      case Nil
      with eq show ?thesis by simp
    next
      case (Cons x xs')
      with eq have "b # cs = xs' @ ''//'' @ ys" by simp
      then have "\<exists>xs ys. b # cs = xs @ ''//'' @ ys" by blast
      with "1.IH" have "hasAdjacentSeparators (b # cs)" by simp
      then show ?thesis by simp
    qed
  qed
qed (auto simp: append_eq_Cons_conv)


lemma pieces_append_separator: "pieces (p @ ''/'') = pieces p @ [[]]"
proof (induction p)
  case Nil
  show ?case by simp
next
  case (Cons c p)
  then show ?case by (cases "pieces p") auto
qed

lemma last_pieces_nonempty: "p \<noteq> [] \<Longrightarrow> last p \<noteq> CHR ''/'' \<Longrightarrow> last (pieces p) \<noteq> []"
proof (induction p)
  case Nil
  then show ?case by simp
next
  case (Cons c p)
  show ?case
  proof (cases "p = []")
    case True
    with Cons.prems show ?thesis by simp
  next
    case False
    with Cons have ih: "last (pieces p) \<noteq> []" by simp
    show ?thesis
    proof (cases "pieces p")
      case Nil
      then show ?thesis by simp
    next
      case (Cons x xs)
      with ih show ?thesis by (cases xs) auto
    qed
  qed
qed

lemma nameSegments_append_separator:
  "p \<noteq> [] \<Longrightarrow> last p \<noteq> CHR ''/'' \<Longrightarrow> nameSegments (p @ ''/'') = nameSegments p"
  by (simp add: nameSegments_def pieces_append_separator last_pieces_nonempty)

lemma beginsWithSeparator_append:
  "p \<noteq> [] \<Longrightarrow> beginsWithSeparator (p @ q) = beginsWithSeparator p"
  by (cases p) (auto simp: beginsWithSeparator_def)

lemma hasAdjacentSeparators_append_separator:
  "p \<noteq> [] \<Longrightarrow> hasAdjacentSeparators (p @ ''/'') = (hasAdjacentSeparators p \<or> last p = CHR ''/'')"
proof (induction p rule: hasAdjacentSeparators.induct)
  case (1 a b cs)
  then show ?case by auto
qed simp_all


subsection \<open>Resolution and the parent entries\<close>

lemma walkFolders_resolvePath:
  "backRefsOk h \<Longrightarrow> (walkFolders h p names = Value q) = (resolvePath h p names = Some q)"
proof (induction names arbitrary: p)
  case Nil
  show ?case by simp
next
  case (Cons name rest)
  show ?case
  proof (cases "h p")
    case None
    then show ?thesis by simp
  next
    case (Some f)
    from Cons.prems Some have links: "map_of (folders f) ''..'' = parentFolder f"
      by (simp add: backRefsOk_def)
    show ?thesis
    proof (cases "name = ''..''")
      case True
      with Some links Cons.IH [OF Cons.prems] show ?thesis
        by (cases "parentFolder f") simp_all
    next
      case False
      with Some Cons.IH [OF Cons.prems] show ?thesis
        by (cases "map_of (folders f) name") simp_all
    qed
  qed
qed

lemma backRefsOk_update:
  "backRefsOk h \<Longrightarrow> map_of (folders f) ''..'' = parentFolder f \<Longrightarrow> backRefsOk (h(p \<mapsto> f))"
  by (simp add: backRefsOk_def)

lemma backRefsOk_lookup:
  "backRefsOk h \<Longrightarrow> h p = Some f \<Longrightarrow> map_of (folders f) ''..'' = parentFolder f"
  by (simp add: backRefsOk_def)

lemma createFolder_backRefsOk:
  assumes ok: "stateOk s" and links: "backRefsOk (heap s)" and n: "n \<noteq> ''..''"
    and ret: "createFolder n s = Returned s'"
  shows "backRefsOk (heap s')"
proof -
  from ret obtain cur where
    cur: "heap s (currentDirPointer s) = Some cur" and
    s': "nextAddr s \<noteq> currentDirPointer s \<longrightarrow>
       s' = s\<lparr>heap := (heap s)
              (nextAddr s \<mapsto> newFolder (currentDirPath s @ ''/'' @ n) (Some (currentDirPointer s)),
               currentDirPointer s \<mapsto> cur\<lparr>folders := AList.update n (nextAddr s) (folders cur),
                                            foldersCount := foldersCount cur + 1\<rparr>),
             nextAddr := nextAddr s + 1\<rparr>"
    by (blast dest: createFolder_Returned)
  from ok cur have "folderOk (nextAddr s) (rootFolder s) (currentDirPointer s) cur"
    by (simp add: stateOk_def heapOk_lookup)
  then have "nextAddr s \<noteq> currentDirPointer s" by (auto simp: folderOk_def)
  with s' have eq: "heap s' = (heap s)
              (nextAddr s \<mapsto> newFolder (currentDirPath s @ ''/'' @ n) (Some (currentDirPointer s)),
               currentDirPointer s \<mapsto> cur\<lparr>folders := AList.update n (nextAddr s) (folders cur),
                                            foldersCount := foldersCount cur + 1\<rparr>)"
    by simp
  from links cur have c: "map_of (folders cur) ''..'' = parentFolder cur"
    by (rule backRefsOk_lookup)
  show ?thesis
    unfolding eq
    using n by (intro backRefsOk_update links) (auto simp: newFolder_def update_conv' c)
qed

lemma deleteFolder_backRefsOk:
  assumes links: "backRefsOk (heap s)" and n: "n \<noteq> ''..''"
    and ret: "deleteFolder fuel n s = Returned s'"
  shows "backRefsOk (heap s')"
proof -
  from ret obtain child h' f' where
    del: "deleteFolderPtr fuel child (heap s) = Value h'" and
    f': "h' (currentDirPointer s) = Some f'" and
    eq: "heap s' = h'(currentDirPointer s \<mapsto>
            f'\<lparr>folders := AList.delete n (folders f'), foldersCount := foldersCount f' - 1\<rparr>)"
    by (auto simp: deleteFolder_def deleteFolderTry_def catchInvalidArgument_def removeFolder_def
             split: if_splits option.splits comp.splits exn.splits)
  have h': "backRefsOk h'"
    using links deleteFolderPtr_shrinks(1) [OF del] by (auto simp: backRefsOk_def)
  then have "map_of (folders f') ''..'' = parentFolder f'" using f' by (rule backRefsOk_lookup)
  with n have "map_of (AList.delete n (folders f')) ''..'' = parentFolder f'" by simp
  with h' show ?thesis unfolding eq by (intro backRefsOk_update) simp_all
qed

lemma files_only_backRefsOk:
  "backRefsOk (heap s) \<Longrightarrow> createFile n c s = Returned s' \<Longrightarrow> backRefsOk (heap s')"
  "backRefsOk (heap s) \<Longrightarrow> updateFile n c s = Returned s' \<Longrightarrow> backRefsOk (heap s')"
  "backRefsOk (heap s) \<Longrightarrow> deleteFile n s = Returned s' \<Longrightarrow> backRefsOk (heap s')"
  by (auto simp: createFile_def createFileTry_def updateFile_def updateFileTry_def
                 deleteFile_def deleteFileTry_def catchInvalidArgument_def Let_def
                 addFile_def removeFile_def backRefsOk_def
           split: if_splits option.splits comp.splits exn.splits)

lemma perform_backRefsOk:
  assumes ok: "stateOk s" and links: "backRefsOk (heap s)" and free: "reservedFree c"
    and st: "stateAfter (perform c s) = Some s'"
  shows "backRefsOk (heap s')"
proof (cases "returned (perform c s)")
  case False
  have "s' = s"
  proof (cases c)
    case (ChangeDirectory d r)
    with st False show ?thesis by (auto dest: changeDirectory_not_returned)
  next
    case (CreateFolder n)
    with st False show ?thesis by (auto dest: createFolder_not_returned)
  next
    case (CreateFile n x)
    with st False show ?thesis by (auto dest: createFile_not_returned)
  next
    case (UpdateFile n x)
    with st False show ?thesis by (auto dest: updateFile_not_returned)
  next
    case (PrintFileContents n)
    with st False show ?thesis by (auto dest: printFileContents_state)
  next
    case (DeleteFolder fuel n)
    with st False show ?thesis by (auto dest: deleteFolder_not_returned)
  next
    case (DeleteFile n)
    with st False show ?thesis by (auto dest: deleteFile_not_returned)
  qed
  with links show ?thesis by simp
next
  case True
  then obtain t where t: "perform c s = Returned t" by (blast dest: returned_cases)
  with st have [simp]: "t = s'" by simp
  show ?thesis
  proof (cases c)
    case (ChangeDirectory d r)
    with st have "heap s' = heap s" by (simp add: changeDirectory_frame)
    with links show ?thesis by simp
  next
    case (CreateFolder n)
    with t ok links free show ?thesis by (auto dest: createFolder_backRefsOk)
  next
    case (CreateFile n x)
    with t links show ?thesis by (auto dest: files_only_backRefsOk)
  next
    case (UpdateFile n x)
    with t links show ?thesis by (auto dest: files_only_backRefsOk)
  next
    case (PrintFileContents n)
    with st links show ?thesis by (auto dest: printFileContents_state)
  next
    case (DeleteFolder fuel n)
    with t links free show ?thesis by (auto dest: deleteFolder_backRefsOk)
  next
    case (DeleteFile n)
    with t links show ?thesis by (auto dest: files_only_backRefsOk)
  qed
qed

lemma newFileManager_backRefsOk: "backRefsOk (heap newFileManager)"
  by (simp add: backRefsOk_def newFileManager_def newFolder_def)

lemma runCalls_backRefsOk:
  "reachable s \<Longrightarrow> backRefsOk (heap s) \<Longrightarrow> \<forall>c \<in> set cs. reservedFree c \<Longrightarrow>
   runCalls cs s = Some s' \<Longrightarrow> backRefsOk (heap s')"
proof (induction cs arbitrary: s)
  case Nil
  then show ?case by simp
next
  case (Cons c cs)
  from Cons.prems(4) obtain t where t: "stateAfter (perform c s) = Some t"
    and r: "runCalls cs t = Some s'"
    by (auto split: option.splits)
  from Cons.prems(1) t have rt: "reachable t" by (rule reachable.step)
  from Cons.prems(1) have "stateOk s" by (rule reachable_stateOk)
  with Cons.prems(2,3) t have "backRefsOk (heap t)"
    by (auto intro: perform_backRefsOk)
  with rt Cons.prems(3) r show ?case by (auto intro: Cons.IH)
qed

lemma afterCalls_backRefsOk:
  "\<forall>c \<in> set cs. reservedFree c \<Longrightarrow> backRefsOk (heap (afterCalls cs))"
  by (auto simp: afterCalls_def split: option.splits
           intro: newFileManager_backRefsOk
                  runCalls_backRefsOk [OF reachable.initial newFileManager_backRefsOk])

text \<open>What createFolder stores: the current-path string, a separator and the name.\<close>

lemma createFolder_stored_path:
  "createFolder folderName s = Returned s' \<Longrightarrow>
   (\<exists>cur' new.
      heap s' (currentDirPointer s) = Some cur' \<and>
      map_of (folders cur') folderName = Some (nextAddr s) \<and>
      heap s' (nextAddr s) = Some new \<and>
      fullPath new = currentDirPath s @ ''/'' @ folderName)"
  by (auto simp: createFolder_def createFolderTry_def catchInvalidArgument_def Let_def
                 addFolder_def newFolder_def update_conv'
           split: if_splits option.splits comp.splits exn.splits)

subsection \<open>Names, extensions and fuel\<close>

text \<open>A name that holds the separator is reported by every operation that takes a name.\<close>

lemma invalid_name_reported:
  assumes "CHR ''/'' \<in> set name"
  shows "createFolder name s = Reported (InvalidArgument NameContainsSlash) s"
    and "createFile name text s = Reported (InvalidArgument NameContainsSlash) s"
    and "updateFile name text s = Reported (InvalidArgument NameContainsSlash) s"
    and "deleteFolder fuel name s = Reported (InvalidArgument NameContainsSlash) s"
    and "deleteFile name s = Reported (InvalidArgument NameContainsSlash) s"
    and "printFileContents name s = Reported (InvalidArgument NameContainsSlash) s"
  using assms
  by (simp_all add: createFolder_def createFolderTry_def createFile_def createFileTry_def
        updateFile_def updateFileTry_def deleteFolder_def deleteFolderTry_def
        deleteFile_def deleteFileTry_def printFileContents_def printFileContentsTry_def
        throwIfNameInvalid_def handler_defs)

text \<open>A name without a dot has the empty extension.\<close>

lemma findLastDot_no_dot:
  "CHR ''.'' \<notin> set fileName \<Longrightarrow> i < int (length fileName) \<Longrightarrow>
   findLastDot fileName fileNameSize i = []"
proof (induction fileName fileNameSize i rule: findLastDot.induct)
  case (1 fileName fileNameSize i)
  show ?case
  proof (cases "i \<ge> 0")
    case False
    then show ?thesis by (subst findLastDot.simps) simp
  next
    case True
    with "1.prems" have "nat i < length fileName" by simp
    with "1.prems"(1) have nodot: "fileName ! nat i \<noteq> CHR ''.''"
      by (metis nth_mem)
    with True "1.IH" "1.prems" have "findLastDot fileName fileNameSize (i - 1) = []" by simp
    with True nodot show ?thesis by (subst findLastDot.simps) simp
  qed
qed

lemma getFileExtension_no_dot:
  "CHR ''.'' \<notin> set fileName \<Longrightarrow> length fileName < 2147483648 \<Longrightarrow>
   getFileExtension fileName = []"
  by (simp add: getFileExtension_def intOfSize_def Let_def findLastDot_no_dot)

text \<open>
  What the two loops of \<^verbatim>\<open>getFileExtension\<close> compute when a dot is found at
  index \<open>i\<close>: one copy of \<^verbatim>\<open>fileName[i]\<close> for each index after \<open>i\<close>.
\<close>

lemma copyExtension_replicate:
  "j \<le> fileNameSize \<Longrightarrow>
   copyExtension fileName fileNameSize i j extension
     = extension @ replicate (nat (fileNameSize - j)) (fileName ! nat i)"
proof (induction fileName fileNameSize i j extension rule: copyExtension.induct)
  case (1 fileName fileNameSize i j extension)
  show ?case
  proof (cases "j < fileNameSize")
    case False
    with "1.prems" show ?thesis by (subst copyExtension.simps) simp
  next
    case True
    then have "nat (fileNameSize - j) = Suc (nat (fileNameSize - (j + 1)))" by simp
    with True "1.IH" show ?thesis
      by (subst copyExtension.simps) (simp add: replicate_app_Cons_same)
  qed
qed

text \<open>More fuel does not change a deletion that came back.\<close>

lemma deleteFolderPtr_more_fuel:
  "deleteFolderPtr fuel p h = Value h' \<Longrightarrow> deleteFolderPtr (Suc fuel) p h = Value h'"
  "destructFolders fuel cs h = Value h' \<Longrightarrow> destructFolders (Suc fuel) cs h = Value h'"
proof (induction fuel p h and fuel cs h arbitrary: h' and h'
       rule: deleteFolderPtr_destructFolders.induct)
  case (1 p h)
  then show ?case by simp
next
  case (2 fuel p h)
  from "2.prems" obtain f h1 where
    f: "h p = Some f" and d: "destructFolders fuel (folders f) h = Value h1" and
    live: "h1 p \<noteq> None" and h': "h' = h1(p := None)"
    by (auto split: option.splits comp.splits if_splits)
  from "2.IH" [OF f d] have "destructFolders (Suc fuel) (folders f) h = Value h1" .
  with f live h' show ?case by (auto simp: fun_upd_def simp del: destructFolders.simps)
next
  case (3 fuel h)
  then show ?case by simp
next
  case (4 fuel curFolder rest h)
  show ?case
  proof (cases "fst curFolder = ''..''")
    case True
    with "4.prems" "4.IH"(1) show ?thesis by simp
  next
    case False
    with "4.prems" obtain h1 where
      d: "deleteFolderPtr fuel (snd curFolder) h = Value h1" and
      r: "destructFolders fuel rest h1 = Value h'"
      by (auto split: comp.splits)
    from "4.IH"(2) [OF False d] have d': "deleteFolderPtr (Suc fuel) (snd curFolder) h = Value h1" .
    from "4.IH"(3) [OF False d r] have "destructFolders (Suc fuel) rest h1 = Value h'" .
    with False d' show ?thesis by (simp del: deleteFolderPtr.simps)
  qed
qed

section \<open>The claims\<close>

subsection \<open>Error handling\<close>

text \<open>
  C1. Every public CRUD operation is meant to catch both a name-validity failure and an
  existence failure (already exists, not found) inside the operation and turn it into a
  reported outcome, so that no call aborts the caller. The code catches only
  \<^verbatim>\<open>std::invalid_argument\<close>; the existence failures are \<^verbatim>\<open>std::runtime_error\<close>s
  and leave the operation. Evaluated here: creating the folder \<open>aaa\<close> twice, creating
  the file \<open>yoyo\<close> twice, and updating, deleting and printing entries that do not
  exist; in each call the exception escapes (from \<^verbatim>\<open>printFileContents\<close>, which is
  \<^verbatim>\<open>noexcept\<close>, into termination).
\<close>

theorem existence_failures_escape:
  "escapes (perform (CreateFolder ''aaa'') (afterCalls [CreateFolder ''aaa'']))
     = Some (RuntimeError FolderExists) \<and>
   escapes (perform (CreateFile ''yoyo'' ''x'') (afterCalls [CreateFile ''yoyo'' ''huhu'']))
     = Some (RuntimeError FileExists) \<and>
   escapes (perform (UpdateFile ''nope'' ''x'') newFileManager) = Some (RuntimeError FileMissing) \<and>
   escapes (perform (DeleteFolder 1 ''nope'') newFileManager) = Some (RuntimeError FolderMissing) \<and>
   escapes (perform (DeleteFile ''nope'') newFileManager) = Some (RuntimeError FileMissing) \<and>
   escapes (perform (PrintFileContents ''nope'') newFileManager) = Some (RuntimeError FileMissing)"
  by code_simp

text \<open>
  C2. If a mutating call (changeDirectory, createFolder, createFile, updateFile,
  deleteFolder, deleteFile) fails, that is, an exception is thrown in it, then the state
  it leaves is the state before the call: the same heap of folders and files, the same
  current-folder pointer and the same current-path string. For changeDirectory this
  covers a resolution that fails at any segment.
\<close>

theorem failed_call_changes_nothing:
  "mutating c \<Longrightarrow> failed (perform c s) \<Longrightarrow> stateAfter (perform c s) = Some s"
proof (cases c)
  case (ChangeDirectory d r)
  assume "failed (perform c s)"
  with ChangeDirectory show ?thesis
    by (auto simp: changeDirectory_def changeDirectoryTry_def catchRuntimeError_def
             split: if_splits sum.splits comp.splits exn.splits)
next
  case (CreateFolder n)
  assume "failed (perform c s)"
  with CreateFolder show ?thesis
    by (auto simp: createFolder_def createFolderTry_def catchInvalidArgument_def Let_def
             split: if_splits option.splits comp.splits exn.splits)
next
  case (CreateFile n x)
  assume "failed (perform c s)"
  with CreateFile show ?thesis
    by (auto simp: createFile_def createFileTry_def catchInvalidArgument_def Let_def
             split: if_splits option.splits comp.splits exn.splits)
next
  case (UpdateFile n x)
  assume "failed (perform c s)"
  with UpdateFile show ?thesis
    by (auto simp: updateFile_def updateFileTry_def catchInvalidArgument_def
             split: if_splits option.splits comp.splits exn.splits)
next
  case (PrintFileContents n)
  assume "mutating c"
  with PrintFileContents show ?thesis by simp
next
  case (DeleteFolder fuel n)
  assume "failed (perform c s)"
  with DeleteFolder show ?thesis
    by (auto simp: deleteFolder_def deleteFolderTry_def catchInvalidArgument_def
             split: if_splits option.splits comp.splits exn.splits)
next
  case (DeleteFile n)
  assume "failed (perform c s)"
  with DeleteFile show ?thesis
    by (auto simp: deleteFile_def deleteFileTry_def catchInvalidArgument_def
             split: if_splits option.splits comp.splits exn.splits)
qed

text \<open>
  The theorem at a resolution that fails at its second segment: \<open>aaa\<close> exists under
  the root, \<open>aaa/zzz\<close> does not.
\<close>

theorem failed_call_changes_nothing_witness:
  "mutating (ChangeDirectory ''aaa/zzz'' True) \<and>
   failed (perform (ChangeDirectory ''aaa/zzz'' True) (afterCalls [CreateFolder ''aaa''])) \<and>
   stateAfter (perform (ChangeDirectory ''aaa/zzz'' True) (afterCalls [CreateFolder ''aaa'']))
     = Some (afterCalls [CreateFolder ''aaa''])"
proof -
  have m: "mutating (ChangeDirectory ''aaa/zzz'' True)" by simp
  have f: "failed (perform (ChangeDirectory ''aaa/zzz'' True) (afterCalls [CreateFolder ''aaa'']))"
    by code_simp
  from m f failed_call_changes_nothing [OF m f] show ?thesis by blast
qed

text \<open>
  C10, as amended. For a manager whose current folder is the root, where the root has no
  child folder named \<open>..\<close> and the current-path string is not itself \<open>..\<close>,
  \<open>changeDirectory ''..'' True\<close> reports that the destination cannot be found and
  leaves the state as it was. (When the current-path string is \<open>..\<close> the call is the
  silent no-op of the first line of changeDirectory: see the counterexample.)
\<close>

theorem changeDirectory_up_from_root:
  "currentDirPointer s = rootFolder s \<Longrightarrow>
   heap s (rootFolder s) = Some f \<Longrightarrow>
   map_of (folders f) ''..'' = None \<Longrightarrow>
   currentDirPath s \<noteq> ''..'' \<Longrightarrow>
   changeDirectory ''..'' True s = Reported (RuntimeError DestinationNotFound) s"
proof -
  assume a: "currentDirPointer s = rootFolder s" "heap s (rootFolder s) = Some f"
    "map_of (folders f) ''..'' = None" "currentDirPath s \<noteq> ''..''"
  have sp: "splitFilePath ''..'' = Inr [''..'']" by code_simp
  from a show ?thesis
    by (simp add: changeDirectory_def changeDirectoryTry_def catchRuntimeError_def sp)
qed

theorem changeDirectory_up_from_root_witness:
  "currentDirPointer newFileManager = rootFolder newFileManager \<and>
   heap newFileManager (rootFolder newFileManager) = Some (newFolder ''/'' None) \<and>
   map_of (folders (newFolder ''/'' None)) ''..'' = None \<and>
   currentDirPath newFileManager \<noteq> ''..'' \<and>
   changeDirectory ''..'' True newFileManager
     = Reported (RuntimeError DestinationNotFound) newFileManager"
proof -
  have 1: "currentDirPointer newFileManager = rootFolder newFileManager"
    by (simp add: newFileManager_def)
  have 2: "heap newFileManager (rootFolder newFileManager) = Some (newFolder ''/'' None)"
    by (simp add: newFileManager_def)
  have 3: "map_of (folders (newFolder ''/'' None)) ''..'' = None"
    by (simp add: newFolder_def)
  have 4: "currentDirPath newFileManager \<noteq> ''..''"
    by (simp add: newFileManager_def)
  from 1 2 3 4 changeDirectory_up_from_root [OF 1 2 3 4] show ?thesis by blast
qed

text \<open>
  The claim without the condition on the current-path string fails: after
  \<open>createFolder aaa\<close>, \<open>changeDirectory aaa\<close> and \<open>changeDirectory ..\<close> (both
  relative) the manager is at the root again, the root's only child is \<open>aaa\<close>, and
  the current-path string is \<open>..\<close>; a further \<open>changeDirectory ''..'' True\<close>
  returns without any report.
\<close>

theorem changeDirectory_up_from_root_counterexample:
  "currentDirPointer
     (afterCalls [CreateFolder ''aaa'', ChangeDirectory ''aaa'' True, ChangeDirectory ''..'' True])
   = rootFolder
     (afterCalls [CreateFolder ''aaa'', ChangeDirectory ''aaa'' True, ChangeDirectory ''..'' True]) \<and>
   folderAt 0 [CreateFolder ''aaa'', ChangeDirectory ''aaa'' True, ChangeDirectory ''..'' True]
   = Some \<lparr>foldersCount = 1, filesCount = 0, fullPath = ''/'', parentFolder = None,
           folders = [(''aaa'', 1)], files = []\<rparr> \<and>
   rootFolder
     (afterCalls [CreateFolder ''aaa'', ChangeDirectory ''aaa'' True, ChangeDirectory ''..'' True])
   = 0 \<and>
   returned (changeDirectory ''..'' True
     (afterCalls [CreateFolder ''aaa'', ChangeDirectory ''aaa'' True, ChangeDirectory ''..'' True])) \<and>
   \<not> failed (changeDirectory ''..'' True
     (afterCalls [CreateFolder ''aaa'', ChangeDirectory ''aaa'' True, ChangeDirectory ''..'' True]))"
  by code_simp

subsection \<open>Paths and extensions\<close>

text \<open>
  C3. The stored extension of a file is meant to be the part of its name after the last
  dot. The inner loop of \<^verbatim>\<open>getFileExtension\<close> pushes \<^verbatim>\<open>fileName[i]\<close>, the dot
  itself, once for every character after it: for \<open>a.txt\<close> the extension computed,
  and stored by createFile, is \<open>...\<close> and not \<open>txt\<close>.
\<close>

theorem extension_of_a_txt:
  "getFileExtension ''a.txt'' = ''...'' \<and>
   folderAt 0 [CreateFile ''a.txt'' ''hello'']
   = Some \<lparr>foldersCount = 0, filesCount = 1, fullPath = ''/'', parentFolder = None,
           folders = [],
           files = [(''a.txt'', \<lparr>fileSize = 5, filePath = ''//a.txt'',
                                fileExtension = ''...'', content = ''hello''\<rparr>)]\<rparr>"
  by code_simp

text \<open>
  C4. The full path stored in a folder is meant to be its parent's full path followed by
  its own name, \<open>/aaa\<close> for a folder \<open>aaa\<close> under the root. createFolder stores the
  manager's current-path string, a separator and the name instead, and the current-path
  string is whatever argument the last changeDirectory was given. The first folder of a
  fresh manager gets \<open>//aaa\<close>, a string that \<open>splitFilePath\<close> itself rejects, and
  three children of the one root get \<open>//a\<close>, \<open>/b\<close> and \<open>../c\<close>.
\<close>

theorem createFolder_stores_navigation_string:
  "map_option fullPath (folderAt 0 [CreateFolder ''aaa'']) = Some ''/'' \<and>
   map_option fullPath (folderAt 1 [CreateFolder ''aaa'']) = Some ''//aaa'' \<and>
   splitFilePath ''//aaa'' = Inl (RuntimeError PreceedingSlash) \<and>
   map_option folders
     (folderAt 0 [CreateFolder ''a'', ChangeDirectory '''' False, CreateFolder ''b'',
                  ChangeDirectory ''a'' True, ChangeDirectory ''..'' True, CreateFolder ''c''])
   = Some [(''a'', 1), (''b'', 2), (''c'', 3)] \<and>
   map_option fullPath
     (folderAt 1 [CreateFolder ''a'', ChangeDirectory '''' False, CreateFolder ''b'',
                  ChangeDirectory ''a'' True, ChangeDirectory ''..'' True, CreateFolder ''c''])
   = Some ''//a'' \<and>
   map_option fullPath
     (folderAt 2 [CreateFolder ''a'', ChangeDirectory '''' False, CreateFolder ''b'',
                  ChangeDirectory ''a'' True, ChangeDirectory ''..'' True, CreateFolder ''c''])
   = Some ''/b'' \<and>
   map_option fullPath
     (folderAt 3 [CreateFolder ''a'', ChangeDirectory '''' False, CreateFolder ''b'',
                  ChangeDirectory ''a'' True, ChangeDirectory ''..'' True, CreateFolder ''c''])
   = Some ''../c''"
  by code_simp

text \<open>
  C7, as amended. If \<open>changeDirectory destinationFolder relative\<close> returns without a
  report, the current-path string is the argument, character for character, and the heap
  is untouched. If the argument equals the current-path string before the call, the call
  changes nothing at all. If it differs, and the \<open>..\<close> entry of every live folder is
  its parent back-reference, then the current-folder pointer is the folder the
  specification's resolution reaches: the name segments of the argument, taken from the
  root (absolute) or from the old current folder (relative), a name leading to the child
  of that name and \<open>..\<close> to the parent.
\<close>

theorem changeDirectory_success:
  "changeDirectory destinationFolder relative s = Returned s' \<Longrightarrow>
   currentDirPath s' = destinationFolder \<and> heap s' = heap s \<and>
   (if currentDirPath s = destinationFolder then s' = s
    else (backRefsOk (heap s) \<longrightarrow>
            resolvePath (heap s) (if relative then currentDirPointer s else rootFolder s)
              (nameSegments destinationFolder)
            = Some (currentDirPointer s')))"
proof -
  assume r: "changeDirectory destinationFolder relative s = Returned s'"
  show ?thesis
  proof (cases "currentDirPath s = destinationFolder")
    case True
    with r show ?thesis by (simp add: changeDirectory_def)
  next
    case False
    let ?start = "if relative then currentDirPointer s else rootFolder s"
    from r False obtain names where
      sp: "splitFilePath destinationFolder = Inr names" and
      w: "walkFolders (heap s) ?start names = Value (currentDirPointer s')" and
      rest: "currentDirPath s' = destinationFolder" "heap s' = heap s"
      by (auto simp: changeDirectory_def changeDirectoryTry_def catchRuntimeError_def
               split: if_splits sum.splits comp.splits exn.splits)
    from sp have names: "names = nameSegments destinationFolder"
      by (auto simp: splitFilePath_char split: if_splits)
    have "resolvePath (heap s) ?start (nameSegments destinationFolder) = Some (currentDirPointer s')"
      if "backRefsOk (heap s)"
      using walkFolders_resolvePath [OF that] w names by simp
    with False rest show ?thesis by simp
  qed
qed

text \<open>
  The theorem on the driver's own sequence: from inside \<open>aaa\<close>, the absolute
  \<open>aaa/bbb\<close> resolves to the folder at address 2, which becomes the current folder,
  and the path string becomes \<open>aaa/bbb\<close>.
\<close>

theorem changeDirectory_success_witness:
  "\<exists>s'. changeDirectory ''aaa/bbb'' False
          (afterCalls [CreateFolder ''aaa'', ChangeDirectory ''aaa'' True, CreateFolder ''bbb''])
        = Returned s' \<and>
        currentDirPath s' = ''aaa/bbb'' \<and> currentDirPointer s' = 2 \<and>
        resolvePath
          (heap (afterCalls [CreateFolder ''aaa'', ChangeDirectory ''aaa'' True, CreateFolder ''bbb'']))
          0 [''aaa'', ''bbb''] = Some 2 \<and>
        backRefsOk
          (heap (afterCalls [CreateFolder ''aaa'', ChangeDirectory ''aaa'' True, CreateFolder ''bbb'']))"
proof -
  let ?s = "afterCalls [CreateFolder ''aaa'', ChangeDirectory ''aaa'' True, CreateFolder ''bbb'']"
  have "returned (changeDirectory ''aaa/bbb'' False ?s)" by code_simp
  then obtain s' where r: "changeDirectory ''aaa/bbb'' False ?s = Returned s'"
    by (blast dest: returned_cases)
  have ne: "currentDirPath ?s \<noteq> ''aaa/bbb''" by code_simp
  have links: "backRefsOk (heap ?s)" by (rule afterCalls_backRefsOk) simp
  have seg: "nameSegments ''aaa/bbb'' = [''aaa'', ''bbb'']" by code_simp
  have root: "rootFolder ?s = 0" by code_simp
  have res: "resolvePath (heap ?s) 0 [''aaa'', ''bbb''] = Some 2" by code_simp
  from changeDirectory_success [OF r] ne links seg root res have
    "currentDirPath s' = ''aaa/bbb'' \<and> currentDirPointer s' = 2"
    by auto
  with r res links show ?thesis by blast
qed

text \<open>
  The statement for every destination and every state fails twice. At the no-op: inside
  \<open>aaa\<close> (entered by the relative \<open>aaa\<close>, so the path string is \<open>aaa\<close>) a
  second folder \<open>aaa\<close> is created; \<open>changeDirectory ''aaa'' True\<close> then returns
  without a report, the destination resolves to the new folder at address 2, and the
  current-folder pointer is still 1. And where \<open>..\<close> is a real child: after
  \<open>createFolder ''..''\<close> in the root, \<open>changeDirectory ''..'' True\<close> from the
  root moves into that child at address 1, while the root has no parent to resolve to.
\<close>

theorem changeDirectory_success_counterexample:
  "returned (changeDirectory ''aaa'' True
     (afterCalls [CreateFolder ''aaa'', ChangeDirectory ''aaa'' True, CreateFolder ''aaa''])) \<and>
   map_option currentDirPointer (stateAfter (changeDirectory ''aaa'' True
     (afterCalls [CreateFolder ''aaa'', ChangeDirectory ''aaa'' True, CreateFolder ''aaa''])))
   = Some 1 \<and>
   nameSegments ''aaa'' = [''aaa''] \<and>
   resolvePath
     (heap (afterCalls [CreateFolder ''aaa'', ChangeDirectory ''aaa'' True, CreateFolder ''aaa'']))
     (currentDirPointer
        (afterCalls [CreateFolder ''aaa'', ChangeDirectory ''aaa'' True, CreateFolder ''aaa'']))
     [''aaa'']
   = Some 2 \<and>
   returned (changeDirectory ''..'' True (afterCalls [CreateFolder ''..''])) \<and>
   currentDirPath (afterCalls [CreateFolder ''..'']) = ''/'' \<and>
   currentDirPointer (afterCalls [CreateFolder ''..'']) = 0 \<and>
   map_option currentDirPointer
     (stateAfter (changeDirectory ''..'' True (afterCalls [CreateFolder ''..''])))
   = Some 1 \<and>
   nameSegments ''..'' = [''..''] \<and>
   resolvePath (heap (afterCalls [CreateFolder ''..''])) 0 [''..''] = None"
  by code_simp

text \<open>
  C8, as amended. For a non-empty path that does not end with the separator, appending
  one separator does not change the result of the split (the same segments or the same
  error). And whenever a path with a trailing separator splits at all, the result is
  not empty and holds no empty segment.
\<close>

theorem trailing_separator:
  "(path \<noteq> [] \<and> last path \<noteq> CHR ''/'' \<longrightarrow>
      splitFilePath (path @ ''/'') = splitFilePath path) \<and>
   (\<forall>splits. splitFilePath (path @ ''/'') = Inr splits \<longrightarrow> splits \<noteq> [] \<and> [] \<notin> set splits)"
proof -
  have same: "splitFilePath (path @ ''/'') = splitFilePath path"
    if "path \<noteq> [] \<and> last path \<noteq> CHR ''/''"
    using that
    by (simp add: splitFilePath_char beginsWithSeparator_append
                  hasAdjacentSeparators_append_separator nameSegments_append_separator)
  have full: "splits \<noteq> [] \<and> [] \<notin> set splits"
    if "splitFilePath (path @ ''/'') = Inr splits" for splits
  proof -
    from that have "\<not> beginsWithSeparator (path @ ''/'')"
      and "\<not> hasAdjacentSeparators (path @ ''/'')"
      and "splits = nameSegments (path @ ''/'')"
      by (auto simp: splitFilePath_char split: if_splits)
    with nameSegments_nonempty [of "path @ ''/''"] show ?thesis by simp
  qed
  from same full show ?thesis by blast
qed

theorem trailing_separator_witness:
  "''aaa/bbb'' \<noteq> [] \<and> last ''aaa/bbb'' \<noteq> CHR ''/'' \<and>
   splitFilePath (''aaa/bbb'' @ ''/'') = splitFilePath ''aaa/bbb'' \<and>
   splitFilePath (''aaa/bbb'' @ ''/'') = Inr [''aaa'', ''bbb'']"
proof -
  have h: "''aaa/bbb'' \<noteq> [] \<and> last ''aaa/bbb'' \<noteq> CHR ''/''" by simp
  have e: "splitFilePath ''aaa/bbb'' = Inr [''aaa'', ''bbb'']" by code_simp
  from trailing_separator [of "''aaa/bbb''"] h
  have "splitFilePath (''aaa/bbb'' @ ''/'') = splitFilePath ''aaa/bbb''" by blast
  with h e show ?thesis by simp
qed

text \<open>
  The claim for every path fails twice: a separator after the empty path is a leading
  separator, and a separator after \<open>a/\<close> is an adjacent one.
\<close>

theorem trailing_separator_counterexample:
  "splitFilePath '''' = Inr [] \<and>
   splitFilePath ('''' @ ''/'') = Inl (RuntimeError PreceedingSlash) \<and>
   splitFilePath ''a/'' = Inr [''a''] \<and>
   splitFilePath (''a/'' @ ''/'') = Inl (RuntimeError AdjacentSlash)"
  by code_simp

text \<open>
  C9. \<open>splitFilePath\<close> fails exactly when the path begins with the separator or holds
  two adjacent separators, and then with one of its two malformed-path errors; otherwise
  it returns the name segments of the path in order; the empty path gives the empty
  sequence.
\<close>

theorem splitFilePath_spec:
  "((\<exists>e. splitFilePath path = Inl e) = (beginsWithSeparator path \<or> hasAdjacentSeparators path)) \<and>
   (\<forall>e. splitFilePath path = Inl e \<longrightarrow>
        e = RuntimeError PreceedingSlash \<or> e = RuntimeError AdjacentSlash) \<and>
   (\<not> beginsWithSeparator path \<and> \<not> hasAdjacentSeparators path \<longrightarrow>
        splitFilePath path = Inr (nameSegments path)) \<and>
   splitFilePath [] = Inr []"
  by (auto simp: splitFilePath_char beginsWithSeparator_def)

theorem splitFilePath_spec_witness:
  "\<not> beginsWithSeparator ''aaa/bbb'' \<and> \<not> hasAdjacentSeparators ''aaa/bbb'' \<and>
   splitFilePath ''aaa/bbb'' = Inr (nameSegments ''aaa/bbb'') \<and>
   nameSegments ''aaa/bbb'' = [''aaa'', ''bbb''] \<and>
   (\<exists>e. splitFilePath ''a//b'' = Inl e) \<and> hasAdjacentSeparators ''a//b''"
proof -
  have a: "\<not> beginsWithSeparator ''aaa/bbb'' \<and> \<not> hasAdjacentSeparators ''aaa/bbb''"
    by code_simp
  have n: "nameSegments ''aaa/bbb'' = [''aaa'', ''bbb'']" by code_simp
  have b: "hasAdjacentSeparators ''a//b''" by code_simp
  from splitFilePath_spec [of "''aaa/bbb''"] a
  have 1: "splitFilePath ''aaa/bbb'' = Inr (nameSegments ''aaa/bbb'')" by blast
  from splitFilePath_spec [of "''a//b''"] b
  have 2: "\<exists>e. splitFilePath ''a//b'' = Inl e" by blast
  from a n b 1 2 show ?thesis by blast
qed

subsection \<open>Invariants of the reachable states\<close>

text \<open>
  C5, as amended. In every state a manager reaches, every live folder binds no name twice,
  its file counter is the number of entries of its file mapping, and its folder counter
  is the number of entries of its folder mapping for the root, and one less than that
  number for every other folder: the entry \<open>..\<close> that the constructor puts into a
  folder with a parent is never counted.
\<close>

theorem counters_match_mappings:
  "reachable s \<Longrightarrow> heap s p = Some f \<Longrightarrow>
   distinct (map fst (folders f)) \<and> distinct (map fst (files f)) \<and>
   filesCount f = int (length (files f)) \<and>
   foldersCount f = int (length (folders f)) - (if p = rootFolder s then 0 else 1)"
proof -
  assume "reachable s" and f: "heap s p = Some f"
  then have "stateOk s" by (simp add: reachable_stateOk)
  with f have "folderOk (nextAddr s) (rootFolder s) p f"
    by (simp add: stateOk_def heapOk_lookup)
  then show ?thesis by (simp add: folderOk_def)
qed

text \<open>
  The theorem after the driver's first calls and a deletion: the folder \<open>aaa\<close> at
  address 1 holds \<open>..\<close> and \<open>bbb\<close> and one file, and counts one folder.
\<close>

theorem counters_match_mappings_witness:
  "reachable (afterCalls [CreateFolder ''aaa'', ChangeDirectory ''aaa'' True, CreateFolder ''bbb'',
                          CreateFolder ''ccc'', CreateFile ''yoyo'' ''huhu'', DeleteFolder 2 ''ccc'']) \<and>
   heap (afterCalls [CreateFolder ''aaa'', ChangeDirectory ''aaa'' True, CreateFolder ''bbb'',
                     CreateFolder ''ccc'', CreateFile ''yoyo'' ''huhu'', DeleteFolder 2 ''ccc'']) 1
   = Some \<lparr>foldersCount = 1, filesCount = 1, fullPath = ''//aaa'', parentFolder = Some 0,
           folders = [(''..'', 0), (''bbb'', 2)],
           files = [(''yoyo'', \<lparr>fileSize = 4, filePath = ''aaa/yoyo'', fileExtension = [],
                                content = ''huhu''\<rparr>)]\<rparr> \<and>
   (1::int) = int (length [(''..'', 0::nat), (''bbb'', 2)]) - 1"
proof -
  let ?s = "afterCalls [CreateFolder ''aaa'', ChangeDirectory ''aaa'' True, CreateFolder ''bbb'',
                        CreateFolder ''ccc'', CreateFile ''yoyo'' ''huhu'', DeleteFolder 2 ''ccc'']"
  let ?f = "\<lparr>foldersCount = 1, filesCount = 1, fullPath = ''//aaa'', parentFolder = Some 0,
           folders = [(''..'', 0), (''bbb'', 2)],
           files = [(''yoyo'', \<lparr>fileSize = 4, filePath = ''aaa/yoyo'', fileExtension = [],
                                content = ''huhu''\<rparr>)]\<rparr>"
  have r: "reachable ?s" by (rule afterCalls_reachable)
  have h: "heap ?s 1 = Some ?f" by code_simp
  have root: "rootFolder ?s = 0" by code_simp
  from counters_match_mappings [OF r h] root
  have "foldersCount ?f = int (length (folders ?f)) - 1" by simp
  then have "(1::int) = int (length [(''..'', 0::nat), (''bbb'', 2)]) - 1" by simp
  with r h show ?thesis by blast
qed

text \<open>
  The claim as stated (the folder counter equals the number of entries) fails for every
  folder createFolder makes: the folder \<open>docs\<close> of a fresh manager counts 0 folders
  and has one entry.
\<close>

theorem counters_match_mappings_counterexample:
  "map_option foldersCount (folderAt 1 [CreateFolder ''docs'']) = Some 0 \<and>
   map_option folders (folderAt 1 [CreateFolder ''docs'']) = Some [(''..'', 0)] \<and>
   length [(''..'', 0::nat)] = 1"
  by code_simp

text \<open>
  C6. No folder is meant to have a real child named \<open>..\<close>, so createFolder must never
  bind that name to a new folder. In the root, which has no \<open>..\<close> entry, the name is
  free and createFolder takes it: the root then counts one folder, named \<open>..\<close>,
  whose own \<open>..\<close> leads back to the root.
\<close>

theorem createFolder_dotdot_in_root:
  "returned (createFolder ''..'' newFileManager) \<and>
   folderAt 0 [CreateFolder ''..'']
   = Some \<lparr>foldersCount = 1, filesCount = 0, fullPath = ''/'', parentFolder = None,
           folders = [(''..'', 1)], files = []\<rparr> \<and>
   folderAt 1 [CreateFolder ''..'']
   = Some \<lparr>foldersCount = 0, filesCount = 0, fullPath = ''//..'', parentFolder = Some 0,
           folders = [(''..'', 0)], files = []\<rparr>"
  by code_simp

end
